theory Spec2Isabelle
  imports Complex_Main
begin

section \<open>Exceptions\<close>

text \<open>
  Every exception the modelled code can raise is a value. \<open>UserError\<close> stands for
  whatever a wrapped function or a configured action raises on its own.
\<close>

datatype py_error =
    RateLimitException
  | PerfDegradationException
  | KeyError string
  | IndexError
  | AttributeError
  | ValueError
  | TypeError
  | ReError
  | StatisticsError
  | NotModelled
  | UserError string

section \<open>The cache backend\<close>

text \<open>
  Modelled from the spec: the backend (\<open>cashews.backends.interface.Backend\<close>) is not part
  of the sources. Section 6 of the specification gives its contract: \<open>incr\<close> is an atomic
  increment that creates the counter at 1, \<open>expire\<close> sets or overwrites the timeout of an
  existing key, \<open>is_locked\<close> tests for a lock record and \<open>set_lock\<close> stores one with a
  value and an expiry. The passing of time is not modelled; \<open>calls\<close> keeps the mutating
  calls in the order they were issued.
\<close>

datatype 'd backend_call =
    Incr string
  | Expire string int
  | SetLock string 'd int

record 'd backend =
  counters :: "string \<rightharpoonup> nat"
  timeouts :: "string \<rightharpoonup> int"
  locks :: "string \<rightharpoonup> ('d \<times> int)"
  calls :: "'d backend_call list"

definition incr :: "string \<Rightarrow> 'd backend \<Rightarrow> nat \<times> 'd backend" where
  "incr k b =
     (let n = (case counters b k of None \<Rightarrow> 1 | Some c \<Rightarrow> Suc c)
      in (n, b\<lparr>counters := (counters b)(k \<mapsto> n), calls := calls b @ [Incr k]\<rparr>))"

definition expire :: "string \<Rightarrow> int \<Rightarrow> 'd backend \<Rightarrow> 'd backend" where
  "expire k t b =
     (if k \<in> dom (counters b)
      then b\<lparr>timeouts := (timeouts b)(k \<mapsto> t), calls := calls b @ [Expire k t]\<rparr>
      else b\<lparr>calls := calls b @ [Expire k t]\<rparr>)"

definition is_locked :: "string \<Rightarrow> 'd backend \<Rightarrow> bool" where
  "is_locked k b = (locks b k \<noteq> None)"

definition set_lock :: "string \<Rightarrow> 'd \<Rightarrow> int \<Rightarrow> 'd backend \<Rightarrow> 'd backend" where
  "set_lock k v t b = b\<lparr>locks := (locks b)(k \<mapsto> (v, t)), calls := calls b @ [SetLock k v t]\<rparr>"

definition empty_backend :: "'d backend" where
  "empty_backend = \<lparr>counters = Map.empty, timeouts = Map.empty, locks = Map.empty, calls = []\<rparr>"

section \<open>Wrapped functions and their state\<close>

text \<open>
  A wrapped function, and a rate limiter's action, is any function of the call arguments
  and the application's own state \<open>'w\<close> that either raises or returns. A decorated call
  runs on the pair of the backend and that state. The concrete key of a call comes from
  \<open>get_cache_key\<close> of \<open>cashews.key\<close>, which is not part of the sources: it is a parameter
  \<open>ck\<close> that maps the call arguments to a key or raises.
\<close>

type_synonym ('a, 'r, 'w) pyfun = "'a \<Rightarrow> 'w \<Rightarrow> (py_error + 'r) \<times> 'w"

section \<open>The rate limiter (decorators/rate.py)\<close>

definition default_action :: "('a, 'x, 'w) pyfun" where
  "default_action args w = (Inl RateLimitException, w)"

text \<open>Lines 57 to 60 of \<open>wrapped_func\<close>: the period on the first increment, then the call.\<close>

definition rate_call_func ::
  "int \<Rightarrow> ('a, 'r, 'w) pyfun \<Rightarrow> string \<Rightarrow> nat \<Rightarrow> 'a \<Rightarrow> 'd backend \<times> 'w
     \<Rightarrow> (py_error + 'r) \<times> 'd backend \<times> 'w" where
  "rate_call_func period func k n args s =
     (case s of (b, w) \<Rightarrow>
        let b' = (if n = 1 then expire k period b else b)
        in (case func args w of (r, w') \<Rightarrow> (r, b', w')))"

text \<open>Lines 52 and 53: the ban on the first call over the limit.\<close>

definition rate_ban :: "int \<Rightarrow> int option \<Rightarrow> string \<Rightarrow> nat \<Rightarrow> 'd backend \<Rightarrow> 'd backend" where
  "rate_ban limit ttl k n b =
     (case ttl of
        None \<Rightarrow> b
      | Some t \<Rightarrow> if t \<noteq> 0 \<and> int n = limit + 1 then expire k t b else b)"

definition rate_wrapped_func ::
  "('a \<Rightarrow> py_error + string) \<Rightarrow> int \<Rightarrow> int \<Rightarrow> int option \<Rightarrow> ('a, 'x, 'w) pyfun
     \<Rightarrow> ('a, 'r, 'w) pyfun \<Rightarrow> 'a \<Rightarrow> 'd backend \<times> 'w \<Rightarrow> (py_error + 'r) \<times> 'd backend \<times> 'w" where
  "rate_wrapped_func ck limit period ttl action func args s =
     (case s of (b, w) \<Rightarrow>
      (case ck args of
         Inl e \<Rightarrow> (Inl e, b, w)
       | Inr k \<Rightarrow>
          (case incr k b of (n, b1) \<Rightarrow>
             if n \<noteq> 0 \<and> int n > limit then
               (let b2 = rate_ban limit ttl k n b1
                in case action args w of
                     (Inl e, w') \<Rightarrow> (Inl e, b2, w')
                   | (Inr _, w') \<Rightarrow> rate_call_func period func k n args (b2, w'))
             else rate_call_func period func k n args (b1, w))))"

text \<open>
  The wrapped function of a rate-limited call is reached when the call is within the limit
  or the action returned.
\<close>

definition rate_reaches_func :: "int \<Rightarrow> nat \<Rightarrow> (py_error + 'x) \<Rightarrow> bool" where
  "rate_reaches_func limit n a = (int n \<le> limit \<or> (case a of Inl _ \<Rightarrow> False | Inr _ \<Rightarrow> True))"

section \<open>The performance breaker (decorators/perf.py)\<close>

text \<open>
  \<open>call_results\<close> is a \<open>deque\<close> with \<open>maxlen = trace_size\<close>: \<open>append\<close> adds on the right
  and, when that exceeds \<open>maxlen\<close>, drops the leftmost entry.
\<close>

definition deque_append :: "nat \<Rightarrow> 'd list \<Rightarrow> 'd \<Rightarrow> 'd list" where
  "deque_append maxlen xs x = (let ys = xs @ [x] in if maxlen < length ys then tl ys else ys)"

text \<open>
  The state of a decorated function is the backend, the trace held by the closure and the
  application's state. \<open>takes\<close>, the difference of the two clock readings, is an input of
  the call. \<open>perf_condition\<close> may raise, as the default one does on an empty trace.
\<close>

definition perf_wrap ::
  "('a \<Rightarrow> py_error + string) \<Rightarrow> int \<Rightarrow> nat \<Rightarrow> ('d \<Rightarrow> 'd list \<Rightarrow> py_error + bool)
     \<Rightarrow> ('a, 'r, 'w) pyfun \<Rightarrow> 'd \<Rightarrow> 'a \<Rightarrow> 'd backend \<times> 'd list \<times> 'w
     \<Rightarrow> (py_error + 'r) \<times> 'd backend \<times> 'd list \<times> 'w" where
  "perf_wrap ck ttl trace_size perf_condition func takes args s =
     (case s of (b, call_results, w) \<Rightarrow>
      (case ck args of
         Inl e \<Rightarrow> (Inl e, b, call_results, w)
       | Inr k \<Rightarrow>
           if is_locked (k @ '':lock'') b then (Inl PerfDegradationException, b, call_results, w)
           else
             (case func args w of
                (Inl e, w') \<Rightarrow> (Inl e, b, call_results, w')
              | (Inr result, w') \<Rightarrow>
                  if length call_results = trace_size then
                    (case perf_condition takes call_results of
                       Inl e \<Rightarrow> (Inl e, b, call_results, w')
                     | Inr True \<Rightarrow>
                         (Inr result, set_lock (k @ '':lock'') takes ttl b, [], w')
                     | Inr False \<Rightarrow>
                         (Inr result, b, deque_append trace_size call_results takes, w'))
                  else (Inr result, b, deque_append trace_size call_results takes, w'))))"

text \<open>
  \<open>_default_perf_condition\<close> over the rationals: \<open>statistics.mean\<close> raises on an empty
  sequence. Floating-point rounding is not modelled.
\<close>

definition default_perf_condition :: "rat \<Rightarrow> rat list \<Rightarrow> py_error + bool" where
  "default_perf_condition current previous =
     (if previous = [] then Inl StatisticsError
      else Inr (sum_list previous / of_nat (length previous) * 2 < current))"

section \<open>Python values and their string forms\<close>

text \<open>
  The values a template can be formatted with. A \<open>string\<close> is a Python \<open>str\<close> whose
  code points are below 256, one \<open>char\<close> each. \<open>PyObj s r attrs\<close> is an instance of a
  user class: \<open>s\<close> is its \<open>str()\<close>, \<open>r\<close> its \<open>repr()\<close> and \<open>attrs\<close> its attributes.
  The interpreter's limit on the number of digits of \<open>str(int)\<close> is not modelled.
\<close>

datatype pyvalue =
    PyNone
  | PyBool bool
  | PyInt int
  | PyStr string
  | PyList "pyvalue list"
  | PyObj string string "(string \<times> pyvalue) list"

definition digit_char :: "nat \<Rightarrow> char" where
  "digit_char n = char_of (48 + n)"

function nat_to_dec :: "nat \<Rightarrow> string" where
  "nat_to_dec n = (if n < 10 then [digit_char n] else nat_to_dec (n div 10) @ [digit_char (n mod 10)])"
  by pat_completeness auto
termination
  by (relation "measure id") auto

declare nat_to_dec.simps [simp del]

definition int_to_dec :: "int \<Rightarrow> string" where
  "int_to_dec i = (if i < 0 then CHR ''-'' # nat_to_dec (nat (- i)) else nat_to_dec (nat i))"

definition hex_char :: "nat \<Rightarrow> char" where
  "hex_char n = (if n < 10 then char_of (48 + n) else char_of (87 + n))"

definition hex_escape :: "char \<Rightarrow> string" where
  "hex_escape c =
     [CHR 0x5C, CHR ''x'', hex_char ((of_char c :: nat) div 16), hex_char ((of_char c :: nat) mod 16)]"

text \<open>\<open>str.isprintable\<close> on the code points below 256.\<close>

definition printable :: "char \<Rightarrow> bool" where
  "printable c = (let n = (of_char c :: nat) in (32 \<le> n \<and> n < 127) \<or> (161 \<le> n \<and> n \<noteq> 173))"

definition repr_char :: "char \<Rightarrow> char \<Rightarrow> string" where
  "repr_char q c =
     (if c = q \<or> c = CHR 0x5C then [CHR 0x5C, c]
      else if c = CHR 0x09 then [CHR 0x5C, CHR ''t'']
      else if c = CHR 0x0A then [CHR 0x5C, CHR ''n'']
      else if c = CHR 0x0D then [CHR 0x5C, CHR ''r'']
      else if printable c then [c]
      else hex_escape c)"

text \<open>\<open>repr\<close> of a \<open>str\<close>: double quotes when it has a single quote and no double one.\<close>

definition str_repr :: "string \<Rightarrow> string" where
  "str_repr s =
     (let q = (if CHR 0x27 \<in> set s \<and> CHR 0x22 \<notin> set s then CHR 0x22 else CHR 0x27)
      in q # concat (map (repr_char q) s) @ [q])"

fun join :: "string \<Rightarrow> string list \<Rightarrow> string" where
  "join sep [] = []"
| "join sep [x] = x"
| "join sep (x # y # ys) = x @ sep @ join sep (y # ys)"

fun py_repr :: "pyvalue \<Rightarrow> string" where
  "py_repr PyNone = ''None''"
| "py_repr (PyBool b) = (if b then ''True'' else ''False'')"
| "py_repr (PyInt i) = int_to_dec i"
| "py_repr (PyStr s) = str_repr s"
| "py_repr (PyList xs) = ''['' @ join '', '' (map py_repr xs) @ '']''"
| "py_repr (PyObj s r attrs) = r"

definition py_str :: "pyvalue \<Rightarrow> string" where
  "py_str v = (case v of PyStr s \<Rightarrow> s | PyObj s r attrs \<Rightarrow> s | _ \<Rightarrow> py_repr v)"

text \<open>\<open>ascii\<close>: the \<open>repr\<close> with every code point from 128 on escaped.\<close>

definition py_ascii :: "pyvalue \<Rightarrow> string" where
  "py_ascii v = concat (map (\<lambda>c. if (of_char c :: nat) < 128 then [c] else hex_escape c) (py_repr v))"

text \<open>\<open>str.lower\<close> on the code points below 256.\<close>

definition lower_char :: "char \<Rightarrow> char" where
  "lower_char c =
     (let n = (of_char c :: nat)
      in if (65 \<le> n \<and> n \<le> 90) \<or> (192 \<le> n \<and> n \<le> 222 \<and> n \<noteq> 215) then char_of (n + 32) else c)"

definition py_lower :: "string \<Rightarrow> string" where
  "py_lower s = map lower_char s"

text \<open>\<open>str.encode()\<close>: UTF-8, two bytes for a code point from 128 on.\<close>

definition utf8_char :: "char \<Rightarrow> string" where
  "utf8_char c =
     (let n = (of_char c :: nat)
      in if n < 128 then [c] else [char_of (192 + n div 64), char_of (128 + n mod 64)])"

definition py_encode :: "string \<Rightarrow> string" where
  "py_encode s = concat (map utf8_char s)"

text \<open>\<open>format(value)\<close> with the empty format specifier is \<open>str(value)\<close> on these values.\<close>

definition py_format :: "pyvalue \<Rightarrow> string" where
  "py_format v = py_str v"

text \<open>\<open>str.split(sep)\<close> for a separator of one character.\<close>

fun py_split :: "char \<Rightarrow> string \<Rightarrow> string list" where
  "py_split sep [] = [[]]"
| "py_split sep (c # cs) =
     (if c = sep then [] # py_split sep cs
      else (case py_split sep cs of [] \<Rightarrow> [[c]] | h # t \<Rightarrow> (c # h) # t))"

section \<open>The format-string parser of \<open>string.Formatter\<close>\<close>

text \<open>
  \<open>Formatter.parse\<close> is the interpreter's \<open>_string.formatter_parser\<close>. It yields tuples of
  a literal text and an optional field: the field name, the format specifier and the
  conversion. Every error it raises is a \<open>ValueError\<close>. It is lazy, so the tuples before a
  malformed place are formatted before the error is raised: \<open>formatter_parser\<close> returns
  them together with the error.
\<close>

type_synonym field = "string \<times> string \<times> char option"
type_synonym item = "string \<times> field option"

text \<open>
  The field name runs to the first \<open>}\<close>, \<open>:\<close> or \<open>!\<close> outside square brackets; the flag
  says that an opening bracket has not been closed yet.
\<close>

fun scan_field_name :: "bool \<Rightarrow> string \<Rightarrow> py_error + (string \<times> char \<times> string)" where
  "scan_field_name inb [] = Inl ValueError"
| "scan_field_name inb (c # cs) =
     (if inb then
        (case scan_field_name (c \<noteq> CHR '']'') cs of
           Inl e \<Rightarrow> Inl e
         | Inr (n, t, r) \<Rightarrow> Inr (c # n, t, r))
      else if c = CHR ''{'' then Inl ValueError
      else if c = CHR ''}'' \<or> c = CHR '':'' \<or> c = CHR ''!'' then Inr ([], c, cs)
      else
        (case scan_field_name (c = CHR ''['') cs of
           Inl e \<Rightarrow> Inl e
         | Inr (n, t, r) \<Rightarrow> Inr (c # n, t, r)))"

text \<open>The format specifier runs to the brace that closes the field, counting nested braces.\<close>

fun scan_format_spec :: "nat \<Rightarrow> string \<Rightarrow> py_error + (string \<times> string)" where
  "scan_format_spec count [] = Inl ValueError"
| "scan_format_spec count (c # cs) =
     (if c = CHR ''}'' \<and> count \<le> 1 then Inr ([], cs)
      else
        (case scan_format_spec
                (if c = CHR ''{'' then Suc count else if c = CHR ''}'' then count - 1 else count) cs of
           Inl e \<Rightarrow> Inl e
         | Inr (spec, r) \<Rightarrow> Inr (c # spec, r)))"

definition conversion_of :: "char \<Rightarrow> char option" where
  "conversion_of c = (if c = CHR 0x00 then None else Some c)"

definition parse_field :: "string \<Rightarrow> py_error + (field \<times> string)" where
  "parse_field s =
     (case scan_field_name False s of
        Inl e \<Rightarrow> Inl e
      | Inr (name, t, r) \<Rightarrow>
          if t = CHR ''}'' then Inr ((name, [], None), r)
          else if t = CHR '':'' then
            (case scan_format_spec 1 r of
               Inl e \<Rightarrow> Inl e
             | Inr (spec, r') \<Rightarrow> Inr ((name, spec, None), r'))
          else
            (case r of
               [] \<Rightarrow> Inl ValueError
             | conv # r1 \<Rightarrow>
                 (case r1 of
                    [] \<Rightarrow> Inl ValueError
                  | c # r2 \<Rightarrow>
                      if c = CHR ''}'' then Inr ((name, [], conversion_of conv), r2)
                      else if c \<noteq> CHR '':'' then Inl ValueError
                      else
                        (case scan_format_spec 1 r2 of
                           Inl e \<Rightarrow> Inl e
                         | Inr (spec, r') \<Rightarrow> Inr ((name, spec, conversion_of conv), r')))))"

definition is_brace :: "char \<Rightarrow> bool" where
  "is_brace c = (c = CHR ''{'' \<or> c = CHR ''}'')"

text \<open>One step of the iterator on a string that is not empty: the tuple and what is left.\<close>

definition markup_next :: "string \<Rightarrow> py_error + (item \<times> string)" where
  "markup_next s =
     (let lit = takeWhile (\<lambda>c. \<not> is_brace c) s
      in case dropWhile (\<lambda>c. \<not> is_brace c) s of
           [] \<Rightarrow> Inr ((lit, None), [])
         | c # r \<Rightarrow>
             (case r of
                [] \<Rightarrow> Inl ValueError
              | c2 # r2 \<Rightarrow>
                  if c2 = c then Inr ((lit @ [c], None), r2)
                  else if c = CHR ''}'' then Inl ValueError
                  else
                    (case parse_field r of
                       Inl e \<Rightarrow> Inl e
                     | Inr (f, r') \<Rightarrow> Inr ((lit, Some f), r'))))"

lemma scan_field_name_shorter: "scan_field_name inb s = Inr (n, t, r) \<Longrightarrow> length r < length s"
proof (induction s arbitrary: inb n)
  case Nil
  then show ?case by simp
next
  case (Cons c cs)
  then show ?case
    by (fastforce split: if_splits sum.splits prod.splits)
qed

lemma scan_format_spec_shorter:
  "scan_format_spec count s = Inr (spec, r) \<Longrightarrow> length r < length s"
proof (induction s arbitrary: count spec)
  case Nil
  then show ?case by simp
next
  case (Cons c cs)
  then show ?case
    by (fastforce split: if_splits sum.splits prod.splits)
qed

lemma parse_field_shorter: "parse_field s = Inr (f, r) \<Longrightarrow> length r < length s"
  unfolding parse_field_def
  by (auto split: sum.splits prod.splits if_splits list.splits
        dest!: scan_field_name_shorter scan_format_spec_shorter)

lemma markup_next_shorter:
  assumes "s \<noteq> []" and "markup_next s = Inr (it, r)"
  shows "length r < length s"
proof -
  have le: "length (dropWhile (\<lambda>c. \<not> is_brace c) s) \<le> length s"
    by (rule length_dropWhile_le)
  show ?thesis
    using assms le
    unfolding markup_next_def Let_def
    by (auto split: list.splits if_splits sum.splits prod.splits dest!: parse_field_shorter)
qed

function formatter_parser :: "string \<Rightarrow> item list \<times> py_error option" where
  "formatter_parser s =
     (if s = [] then ([], None)
      else
        (case markup_next s of
           Inl e \<Rightarrow> ([], Some e)
         | Inr (it, r) \<Rightarrow> (case formatter_parser r of (items, err) \<Rightarrow> (it # items, err))))"
  by pat_completeness auto
termination
  by (relation "measure length") (auto dest: markup_next_shorter)

declare formatter_parser.simps [simp del]

section \<open>Looking a field up (\<open>Formatter.get_field\<close>)\<close>

text \<open>
  \<open>NotModelled\<close> is the outcome of a step whose result depends on what these values do not
  carry: an attribute of a built-in value, an attribute of an instance whose name starts
  with two underscores, indexing or calling an instance.
\<close>

definition is_digit :: "char \<Rightarrow> bool" where
  "is_digit c = (48 \<le> (of_char c :: nat) \<and> (of_char c :: nat) \<le> 57)"

text \<open>
  \<open>get_integer\<close> of the interpreter: the number a string of decimal digits denotes, none
  for any other string, and a \<open>ValueError\<close> once the digits read so far exceed the largest
  index, \<open>PY_SSIZE_T_MAX\<close>, here that of a 64-bit platform.
\<close>

definition PY_SSIZE_T_MAX :: int where
  "PY_SSIZE_T_MAX = 9223372036854775807"

fun get_integer_from :: "int \<Rightarrow> string \<Rightarrow> py_error + int option" where
  "get_integer_from acc [] = Inr (Some acc)"
| "get_integer_from acc (c # cs) =
     (if \<not> is_digit c then Inr None
      else if acc * 10 + ((of_char c :: int) - 48) > PY_SSIZE_T_MAX then Inl ValueError
      else get_integer_from (acc * 10 + ((of_char c :: int) - 48)) cs)"

definition get_integer :: "string \<Rightarrow> py_error + int option" where
  "get_integer s = (if s = [] then Inr None else get_integer_from 0 s)"

definition is_name_sep :: "char \<Rightarrow> bool" where
  "is_name_sep c = (c = CHR ''.'' \<or> c = CHR ''['')"

text \<open>
  \<open>get_value\<close> with the empty tuple of positional arguments, as \<open>template_to_pattern\<close>
  calls \<open>format\<close>: a field whose first part is a number raises \<open>IndexError\<close>.
\<close>

definition get_value :: "(string \<rightharpoonup> pyvalue) \<Rightarrow> string \<Rightarrow> py_error + pyvalue" where
  "get_value kwargs first =
     (case get_integer first of
        Inl e \<Rightarrow> Inl e
      | Inr (Some i) \<Rightarrow> Inl IndexError
      | Inr None \<Rightarrow> (case kwargs first of None \<Rightarrow> Inl (KeyError first) | Some v \<Rightarrow> Inr v))"

definition py_getattr :: "pyvalue \<Rightarrow> string \<Rightarrow> py_error + pyvalue" where
  "py_getattr obj name =
     (case obj of
        PyObj s r attrs \<Rightarrow>
          (case map_of attrs name of
             Some v \<Rightarrow> Inr v
           | None \<Rightarrow> if take 2 name = ''__'' then Inl NotModelled else Inl AttributeError)
      | _ \<Rightarrow> Inl NotModelled)"

definition py_getitem :: "pyvalue \<Rightarrow> string \<Rightarrow> py_error + pyvalue" where
  "py_getitem obj idx =
     (case get_integer idx of
        Inl e \<Rightarrow> Inl e
      | Inr i \<Rightarrow>
          (case obj of
             PyObj s r attrs \<Rightarrow> Inl NotModelled
           | PyList xs \<Rightarrow>
               (case i of
                  None \<Rightarrow> Inl TypeError
                | Some n \<Rightarrow> if n < int (length xs) then Inr (xs ! nat n) else Inl IndexError)
           | PyStr s \<Rightarrow>
               (case i of
                  None \<Rightarrow> Inl TypeError
                | Some n \<Rightarrow> if n < int (length s) then Inr (PyStr [s ! nat n]) else Inl IndexError)
           | _ \<Rightarrow> Inl TypeError))"

text \<open>
  The parts of a field name after the first are read one at a time, each applied before
  the next is read: \<open>.name\<close> is an attribute, \<open>[index]\<close> an item.
\<close>

function get_field_rest :: "pyvalue \<Rightarrow> string \<Rightarrow> py_error + pyvalue" where
  "get_field_rest obj rest =
     (case rest of
        [] \<Rightarrow> Inr obj
      | c # r \<Rightarrow>
          if c = CHR ''.'' then
            (let name = takeWhile (\<lambda>c. \<not> is_name_sep c) r
             in if name = [] then Inl ValueError
                else (case py_getattr obj name of
                        Inl e \<Rightarrow> Inl e
                      | Inr v \<Rightarrow> get_field_rest v (dropWhile (\<lambda>c. \<not> is_name_sep c) r)))
          else if c = CHR ''['' then
            (let idx = takeWhile (\<lambda>c. c \<noteq> CHR '']'') r
             in case dropWhile (\<lambda>c. c \<noteq> CHR '']'') r of
                  [] \<Rightarrow> Inl ValueError
                | b # r' \<Rightarrow>
                    if idx = [] then Inl ValueError
                    else (case py_getitem obj idx of
                            Inl e \<Rightarrow> Inl e
                          | Inr v \<Rightarrow> get_field_rest v r'))
          else Inl ValueError)"
  by pat_completeness auto
termination
proof (relation "measure (\<lambda>(obj, rest). length rest)")
  show "wf (measure (\<lambda>(obj, rest). length rest))" by simp
next
  fix obj :: pyvalue and rest :: string and c r name v
  assume "rest = c # r"
  then show "((v, dropWhile (\<lambda>c. \<not> is_name_sep c) r), obj, rest)
               \<in> measure (\<lambda>(obj, rest). length rest)"
    by (simp add: length_dropWhile_le le_imp_less_Suc)
next
  fix obj :: pyvalue and rest :: string and c r idx b r' v
  assume "rest = c # r" and "dropWhile (\<lambda>c. c \<noteq> CHR '']'') r = b # r'"
  then have "length (b # r') \<le> length r"
    by (metis length_dropWhile_le)
  with \<open>rest = c # r\<close> show "((v, r'), obj, rest) \<in> measure (\<lambda>(obj, rest). length rest)"
    by simp
qed

declare get_field_rest.simps [simp del]

text \<open>\<open>Formatter.get_field\<close>: the order is the split of the name, the first part, the rest.\<close>

definition formatter_get_field :: "(string \<rightharpoonup> pyvalue) \<Rightarrow> string \<Rightarrow> py_error + pyvalue" where
  "formatter_get_field kwargs field_name =
     (case get_value kwargs (takeWhile (\<lambda>c. \<not> is_name_sep c) field_name) of
        Inl e \<Rightarrow> Inl e
      | Inr obj \<Rightarrow> get_field_rest obj (dropWhile (\<lambda>c. \<not> is_name_sep c) field_name))"

section \<open>The formatters of formatter.py\<close>

type_synonym field_function = "pyvalue \<Rightarrow> string list \<Rightarrow> py_error + pyvalue"

text \<open>
  A \<open>_ReplaceFormatter\<close> has its default policy and no functions; a \<open>_FuncFormatter\<close> has
  both.
\<close>

record formatter =
  fm_default :: "string \<Rightarrow> string"
  fm_functions :: "(string \<rightharpoonup> field_function) option"

definition is_caught :: "py_error \<Rightarrow> bool" where
  "is_caught e = (case e of KeyError k \<Rightarrow> True | AttributeError \<Rightarrow> True | _ \<Rightarrow> False)"

definition get_field :: "formatter \<Rightarrow> (string \<rightharpoonup> pyvalue) \<Rightarrow> string \<Rightarrow> py_error + pyvalue" where
  "get_field fm kwargs field_name =
     (case formatter_get_field kwargs field_name of
        Inl e \<Rightarrow> if is_caught e then Inr (PyStr (fm_default fm field_name)) else Inl e
      | Inr obj \<Rightarrow> Inr obj)"

definition convert_field :: "pyvalue \<Rightarrow> char option \<Rightarrow> py_error + pyvalue" where
  "convert_field v conversion =
     (case conversion of
        None \<Rightarrow> Inr v
      | Some c \<Rightarrow>
          if c = CHR ''s'' then Inr (PyStr (py_str v))
          else if c = CHR ''r'' then Inr (PyStr (py_repr v))
          else if c = CHR ''a'' then Inr (PyStr (py_ascii v))
          else Inl ValueError)"

definition format_value :: "pyvalue \<Rightarrow> pyvalue" where
  "format_value v =
     (case v of
        PyNone \<Rightarrow> PyStr []
      | PyBool b \<Rightarrow> PyStr (py_lower (py_str (PyBool b)))
      | _ \<Rightarrow> v)"

definition replace_format_field :: "pyvalue \<Rightarrow> string \<Rightarrow> string" where
  "replace_format_field v format_spec = py_format (format_value v)"

definition parse_format_spec :: "string \<Rightarrow> string \<times> string list" where
  "parse_format_spec format_spec =
     (if format_spec = [] \<or> CHR ''('' \<notin> set format_spec then (format_spec, [])
      else (takeWhile (\<lambda>c. c \<noteq> CHR ''('') format_spec,
            py_split CHR '',''
              (filter (\<lambda>c. c \<noteq> CHR '')'') (tl (dropWhile (\<lambda>c. c \<noteq> CHR ''('') format_spec)))))"

definition func_format_field ::
  "(string \<rightharpoonup> field_function) \<Rightarrow> pyvalue \<Rightarrow> string \<Rightarrow> py_error + string" where
  "func_format_field funcs v format_spec =
     (case parse_format_spec format_spec of
        (alias, args) \<Rightarrow>
          (case funcs alias of
             Some f \<Rightarrow>
               (case f v args of
                  Inl e \<Rightarrow> Inl e
                | Inr r \<Rightarrow> Inr (replace_format_field (PyStr (py_str r)) []))
           | None \<Rightarrow> Inr (replace_format_field v alias)))"

definition format_field :: "formatter \<Rightarrow> pyvalue \<Rightarrow> string \<Rightarrow> py_error + string" where
  "format_field fm v format_spec =
     (case fm_functions fm of
        None \<Rightarrow> Inr (replace_format_field v format_spec)
      | Some funcs \<Rightarrow> func_format_field funcs v format_spec)"

section \<open>Formatting a template (\<open>Formatter.vformat\<close>)\<close>

text \<open>\<open>str.isdigit\<close> on the code points below 256: the ten digits and the superscripts 1, 2, 3.\<close>

definition py_isdigit :: "char \<Rightarrow> bool" where
  "py_isdigit c = (is_digit c \<or> (of_char c :: nat) \<in> {178, 179, 185})"

text \<open>
  \<open>auto_arg_index\<close> is the state of the automatic numbering: a number, or \<open>False\<close> once a
  field name of digits has been seen. There are no positional arguments, so a field with
  an empty name, which stands for the next one, raises \<open>IndexError\<close> at once and the
  number never leaves 0. What is left of the state is the flag \<open>manual\<close>, true when
  \<open>auto_arg_index\<close> is \<open>False\<close>: then an empty name raises \<open>ValueError\<close> instead. The flag
  is threaded through the fields and through the expansion of their specifiers.
\<close>

definition format_one ::
  "formatter \<Rightarrow> (string \<rightharpoonup> pyvalue) \<Rightarrow> (bool \<Rightarrow> string \<Rightarrow> py_error + string \<times> bool) \<Rightarrow> bool
     \<Rightarrow> field \<Rightarrow> py_error + string \<times> bool" where
  "format_one fm kwargs expand manual f =
     (case f of
        (field_name, format_spec, conversion) \<Rightarrow>
          if field_name = [] then (if manual then Inl ValueError else Inl IndexError)
          else
            (case get_field fm kwargs field_name of
               Inl e \<Rightarrow> Inl e
             | Inr obj \<Rightarrow>
                 (case convert_field obj conversion of
                    Inl e \<Rightarrow> Inl e
                  | Inr obj' \<Rightarrow>
                      (case expand (manual \<or> list_all py_isdigit field_name) format_spec of
                         Inl e \<Rightarrow> Inl e
                       | Inr (spec, manual') \<Rightarrow>
                           (case format_field fm obj' spec of
                              Inl e \<Rightarrow> Inl e
                            | Inr out \<Rightarrow> Inr (out, manual'))))))"

fun format_items ::
  "formatter \<Rightarrow> (string \<rightharpoonup> pyvalue) \<Rightarrow> (bool \<Rightarrow> string \<Rightarrow> py_error + string \<times> bool)
     \<Rightarrow> py_error option \<Rightarrow> bool \<Rightarrow> item list \<Rightarrow> py_error + string \<times> bool" where
  "format_items fm kwargs expand err manual [] =
     (case err of None \<Rightarrow> Inr ([], manual) | Some e \<Rightarrow> Inl e)"
| "format_items fm kwargs expand err manual ((literal_text, fld) # items) =
     (case (case fld of
              None \<Rightarrow> Inr ([], manual)
            | Some f \<Rightarrow> format_one fm kwargs expand manual f) of
        Inl e \<Rightarrow> Inl e
      | Inr (out, manual') \<Rightarrow>
          (case format_items fm kwargs expand err manual' items of
             Inl e \<Rightarrow> Inl e
           | Inr (rest_out, manual'') \<Rightarrow> Inr (literal_text @ out @ rest_out, manual'')))"

text \<open>
  \<open>_vformat\<close> with \<open>recursion_depth = d\<close> is \<open>vformat_depth\<close> at \<open>Suc d\<close>; a negative depth
  raises. \<open>vformat\<close> starts at depth 2 with the numbering at 0 and drops the final state.
\<close>

fun vformat_depth ::
  "formatter \<Rightarrow> (string \<rightharpoonup> pyvalue) \<Rightarrow> nat \<Rightarrow> bool \<Rightarrow> string \<Rightarrow> py_error + string \<times> bool" where
  "vformat_depth fm kwargs 0 manual format_string = Inl ValueError"
| "vformat_depth fm kwargs (Suc d) manual format_string =
     (case formatter_parser format_string of
        (items, err) \<Rightarrow> format_items fm kwargs (vformat_depth fm kwargs d) err manual items)"

definition vformat :: "formatter \<Rightarrow> string \<Rightarrow> (string \<rightharpoonup> pyvalue) \<Rightarrow> py_error + string" where
  "vformat fm format_string kwargs =
     (case vformat_depth fm kwargs 3 False format_string of
        Inl e \<Rightarrow> Inl e
      | Inr (out, manual) \<Rightarrow> Inr out)"

section \<open>The built-in field functions and formatters\<close>

text \<open>
  \<open>hashlib\<close>, \<open>base64\<close> and \<open>json\<close> are libraries, not code of this repository: the three
  digests (bytes to hexadecimal digest) and the decoding of a token's payload (base64,
  then JSON, to a dictionary or an error) are parameters.
\<close>

record libs =
  md5 :: "string \<Rightarrow> string"
  sha1 :: "string \<Rightarrow> string"
  sha256 :: "string \<Rightarrow> string"
  decode_payload :: "string \<Rightarrow> py_error + (string \<rightharpoonup> pyvalue)"

definition len_func :: field_function where
  "len_func v args =
     (if args \<noteq> [] then Inl TypeError
      else
        (case v of
           PyStr s \<Rightarrow> Inr (PyInt (int (length s)))
         | PyList xs \<Rightarrow> Inr (PyInt (int (length xs)))
         | PyObj s r attrs \<Rightarrow> Inl NotModelled
         | _ \<Rightarrow> Inl TypeError))"

definition jwt_func :: "libs \<Rightarrow> field_function" where
  "jwt_func L jwt args =
     (case args of
        [key] \<Rightarrow>
          (case jwt of
             PyStr s \<Rightarrow>
               (case py_split CHR ''.'' s of
                  h # payload # sig # more_parts \<Rightarrow>
                    (case decode_payload L payload of
                       Inl e \<Rightarrow> Inl e
                     | Inr payload_dict \<Rightarrow>
                         Inr (case payload_dict key of None \<Rightarrow> PyNone | Some v \<Rightarrow> v))
                | _ \<Rightarrow> Inl ValueError)
           | PyObj s r attrs \<Rightarrow> Inl NotModelled
           | _ \<Rightarrow> Inl AttributeError)
      | _ \<Rightarrow> Inl TypeError)"

definition algs :: "libs \<Rightarrow> string \<rightharpoonup> (string \<Rightarrow> string)" where
  "algs L = [''sha1'' \<mapsto> sha1 L, ''md5'' \<mapsto> md5 L, ''sha256'' \<mapsto> sha256 L]"

text \<open>
  \<open>_hash_func(value, alg="md5")\<close>: the table is read before the value is encoded, so an
  unknown name raises \<open>KeyError\<close> for every value; only a \<open>str\<close> has \<open>encode\<close>.
\<close>

definition hash_alg :: "libs \<Rightarrow> pyvalue \<Rightarrow> string \<Rightarrow> py_error + pyvalue" where
  "hash_alg L v alg =
     (case algs L alg of
        None \<Rightarrow> Inl (KeyError alg)
      | Some h \<Rightarrow>
          (case v of
             PyStr s \<Rightarrow> Inr (PyStr (h (py_encode s)))
           | PyObj s r attrs \<Rightarrow>
               (case map_of attrs ''encode'' of None \<Rightarrow> Inl AttributeError | Some m \<Rightarrow> Inl NotModelled)
           | _ \<Rightarrow> Inl AttributeError))"

definition hash_func :: "libs \<Rightarrow> field_function" where
  "hash_func L v args =
     (case args of
        [] \<Rightarrow> hash_alg L v ''md5''
      | [alg] \<Rightarrow> hash_alg L v alg
      | _ \<Rightarrow> Inl TypeError)"

definition default_formatter :: "libs \<Rightarrow> formatter" where
  "default_formatter L =
     \<lparr>fm_default = (\<lambda>name. []),
      fm_functions = Some [''len'' \<mapsto> len_func, ''jwt'' \<mapsto> jwt_func L, ''hash'' \<mapsto> hash_func L]\<rparr>"

text \<open>\<open>_ReplaceFormatter()\<close>, the formatter \<open>template_to_pattern\<close> uses when given none.\<close>

definition replace_formatter :: formatter where
  "replace_formatter = \<lparr>fm_default = (\<lambda>field. ''*''), fm_functions = None\<rparr>"

definition template_to_pattern ::
  "formatter \<Rightarrow> string \<Rightarrow> (string \<rightharpoonup> pyvalue) \<Rightarrow> py_error + string" where
  "template_to_pattern fm template kwargs = vformat fm template kwargs"

definition re_default :: "string \<Rightarrow> string" where
  "re_default field_name =
     ''(?P<'' @ map (\<lambda>c. if c = CHR ''.'' then CHR ''_'' else c) field_name @ ''>[^:]*)''"

definition re_formatter :: formatter where
  "re_formatter = \<lparr>fm_default = re_default, fm_functions = None\<rparr>"

section \<open>Notions of the specification\<close>

text \<open>The fixed set of digest names \<open>hash\<close> accepts.\<close>

definition hash_names :: "string set" where
  "hash_names = {''sha1'', ''md5'', ''sha256''}"

text \<open>
  The default stringification of section 4.2, in the specification's words: null gives
  the empty string, a boolean its lowercase literal, any other value its string form.
\<close>

definition default_stringification :: "pyvalue \<Rightarrow> string" where
  "default_stringification v =
     (case v of PyNone \<Rightarrow> [] | PyBool b \<Rightarrow> (if b then ''true'' else ''false'') | _ \<Rightarrow> py_str v)"

section \<open>Plain fields and the text of an item\<close>

definition first_part :: "string \<Rightarrow> string" where
  "first_part field_name = takeWhile (\<lambda>c. \<not> is_name_sep c) field_name"

text \<open>
  A field is plain for a formatter when it has a name, no conversion, a specifier without
  braces (so nothing to expand) and, for a \<open>_FuncFormatter\<close>, a specifier that names no
  registered function.
\<close>

definition plain_field :: "formatter \<Rightarrow> field \<Rightarrow> bool" where
  "plain_field fm f =
     (case f of
        (field_name, format_spec, conversion) \<Rightarrow>
          field_name \<noteq> [] \<and> conversion = None \<and> list_all (\<lambda>c. \<not> is_brace c) format_spec
          \<and> (case fm_functions fm of
                None \<Rightarrow> True
              | Some funcs \<Rightarrow> funcs (fst (parse_format_spec format_spec)) = None))"

definition resolves :: "formatter \<Rightarrow> (string \<rightharpoonup> pyvalue) \<Rightarrow> string \<Rightarrow> bool" where
  "resolves fm kwargs field_name =
     (case get_field fm kwargs field_name of Inl e \<Rightarrow> False | Inr v \<Rightarrow> True)"

definition item_ok :: "formatter \<Rightarrow> (string \<rightharpoonup> pyvalue) \<Rightarrow> item \<Rightarrow> bool" where
  "item_ok fm kwargs it =
     (case it of
        (literal_text, None) \<Rightarrow> True
      | (literal_text, Some f) \<Rightarrow> plain_field fm f \<and> resolves fm kwargs (fst f))"

text \<open>What an item contributes: its literal text, then the stringified value of its field.\<close>

definition field_text :: "formatter \<Rightarrow> (string \<rightharpoonup> pyvalue) \<Rightarrow> string \<Rightarrow> string" where
  "field_text fm kwargs field_name =
     (case get_field fm kwargs field_name of
        Inl e \<Rightarrow> []
      | Inr v \<Rightarrow> default_stringification v)"

definition item_text :: "formatter \<Rightarrow> (string \<rightharpoonup> pyvalue) \<Rightarrow> item \<Rightarrow> string" where
  "item_text fm kwargs it =
     (case it of
        (literal_text, None) \<Rightarrow> literal_text
      | (literal_text, Some f) \<Rightarrow> literal_text @ field_text fm kwargs (fst f))"

section \<open>The patterns \<open>register_template\<close> compiles\<close>

text \<open>
  Python's \<open>re\<close> is a library. Its patterns are modelled on the fragment that
  \<open>register_template\<close> produces: the optional prefix \<open>(.*[:])?\<close>, literal characters,
  the dot, the named groups \<open>(?P<name>[^:]*)\<close> and \<open>$\<close>. The constructs that the
  characters \<open>^ * + ? [ ( ) |\<close>, the backslash and a brace that opens a repetition begin
  are \<open>NotModelled\<close>.
\<close>

datatype re_atom =
    ReLit char
  | ReAny
  | ReAnyPrefix
  | ReGroup string
  | ReDollar

text \<open>
  The characters of literal text that do not stand for themselves in a pattern, the dot
  and the opening brace apart, which are treated on their own.
\<close>

definition re_special :: "char \<Rightarrow> bool" where
  "re_special c = (c \<in> set ''^$*+?[()|'' \<or> c = CHR 0x5C)"

fun strip_prefix :: "string \<Rightarrow> string \<Rightarrow> string option" where
  "strip_prefix [] s = Some s"
| "strip_prefix (p # ps) [] = None"
| "strip_prefix (p # ps) (c # cs) = (if p = c then strip_prefix ps cs else None)"

text \<open>
  \<open>str.isidentifier\<close> on the code points below 256: a letter or an underscore, then
  letters, digits, underscores and the middle dot.
\<close>

definition ident_start :: "char \<Rightarrow> bool" where
  "ident_start c =
     (let n = (of_char c :: nat)
      in (65 \<le> n \<and> n \<le> 90) \<or> (97 \<le> n \<and> n \<le> 122) \<or> n = 95
         \<or> n = 170 \<or> n = 181 \<or> n = 186
         \<or> (192 \<le> n \<and> n \<le> 214) \<or> (216 \<le> n \<and> n \<le> 246) \<or> 248 \<le> n)"

definition ident_char :: "char \<Rightarrow> bool" where
  "ident_char c = (ident_start c \<or> is_digit c \<or> (of_char c :: nat) = 183)"

definition is_identifier :: "string \<Rightarrow> bool" where
  "is_identifier s = (case s of [] \<Rightarrow> False | c # cs \<Rightarrow> ident_start c \<and> list_all ident_char cs)"

text \<open>
  After an opening brace: a repetition is digits, then possibly a comma and digits, then
  the closing brace, and not the closing brace at once. Any other brace is a literal.
\<close>

definition brace_repeat :: "string \<Rightarrow> bool" where
  "brace_repeat rest =
     (case rest of
        [] \<Rightarrow> False
      | c # cs \<Rightarrow>
          if c = CHR ''}'' then False
          else
            (let r1 = dropWhile is_digit rest;
                 r2 = (case r1 of [] \<Rightarrow> [] | x # xs \<Rightarrow> if x = CHR '','' then dropWhile is_digit xs else r1)
             in case r2 of [] \<Rightarrow> False | y # ys \<Rightarrow> y = CHR ''}''))"

lemma strip_prefix_shorter: "strip_prefix p s = Some r \<Longrightarrow> length r \<le> length s"
  by (induction p s rule: strip_prefix.induct) (auto split: if_splits)

text \<open>
  The parser reads the pattern from the left, as \<open>re.compile\<close> does, with the group names
  seen so far: a name that is not closed, is not an identifier or is defined twice is an
  error of \<open>re\<close>.
\<close>

function re_parse :: "string list \<Rightarrow> string \<Rightarrow> py_error + re_atom list" where
  "re_parse seen [] = Inr []"
| "re_parse seen (c # cs) =
     (if c = CHR ''('' then
        (case strip_prefix ''.*[:])?'' cs of
           Some r \<Rightarrow>
             (case re_parse seen r of Inl e \<Rightarrow> Inl e | Inr atoms \<Rightarrow> Inr (ReAnyPrefix # atoms))
         | None \<Rightarrow>
             (case strip_prefix ''?P<'' cs of
                None \<Rightarrow> Inl NotModelled
              | Some r \<Rightarrow>
                  (let name = takeWhile (\<lambda>x. x \<noteq> CHR ''>'') r
                   in if dropWhile (\<lambda>x. x \<noteq> CHR ''>'') r = [] then Inl ReError
                      else if \<not> is_identifier name then Inl ReError
                      else if name \<in> set seen then Inl ReError
                      else
                        (case strip_prefix ''>[^:]*)'' (dropWhile (\<lambda>x. x \<noteq> CHR ''>'') r) of
                           None \<Rightarrow> Inl NotModelled
                         | Some r' \<Rightarrow>
                             (case re_parse (name # seen) r' of
                                Inl e \<Rightarrow> Inl e
                              | Inr atoms \<Rightarrow> Inr (ReGroup name # atoms))))))
      else if c = CHR ''$'' then
        (case re_parse seen cs of Inl e \<Rightarrow> Inl e | Inr atoms \<Rightarrow> Inr (ReDollar # atoms))
      else if c = CHR ''.'' then
        (case re_parse seen cs of Inl e \<Rightarrow> Inl e | Inr atoms \<Rightarrow> Inr (ReAny # atoms))
      else if re_special c \<or> (c = CHR ''{'' \<and> brace_repeat cs) then Inl NotModelled
      else (case re_parse seen cs of Inl e \<Rightarrow> Inl e | Inr atoms \<Rightarrow> Inr (ReLit c # atoms)))"
  by pat_completeness auto
termination
proof (relation "measure (\<lambda>(seen, s). length s)")
  show "wf (measure (\<lambda>(seen, s). length s))" by simp
next
  fix seen :: "string list" and c :: char and cs r :: string
  assume "strip_prefix ''.*[:])?'' cs = Some r"
  then have "length r \<le> length cs" by (rule strip_prefix_shorter)
  then show "((seen, r), seen, c # cs) \<in> measure (\<lambda>(seen, s). length s)" by simp
next
  fix seen :: "string list" and c :: char and cs r name r' :: string
  assume "strip_prefix ''?P<'' cs = Some r"
    and "strip_prefix ''>[^:]*)'' (dropWhile (\<lambda>x. x \<noteq> CHR ''>'') r) = Some r'"
  then have "length r \<le> length cs" and "length r' \<le> length (dropWhile (\<lambda>x. x \<noteq> CHR ''>'') r)"
    by (auto dest: strip_prefix_shorter)
  moreover have "length (dropWhile (\<lambda>x. x \<noteq> CHR ''>'') r) \<le> length r"
    by (rule length_dropWhile_le)
  ultimately show "((name # seen, r'), seen, c # cs) \<in> measure (\<lambda>(seen, s). length s)" by simp
next
  fix seen :: "string list" and c :: char and cs :: string
  show "((seen, cs), seen, c # cs) \<in> measure (\<lambda>(seen, s). length s)" by simp
next
  fix seen :: "string list" and c :: char and cs :: string
  show "((seen, cs), seen, c # cs) \<in> measure (\<lambda>(seen, s). length s)" by simp
next
  fix seen :: "string list" and c :: char and cs :: string
  show "((seen, cs), seen, c # cs) \<in> measure (\<lambda>(seen, s). length s)" by simp
qed

declare re_parse.simps [simp del]

definition re_compile :: "string \<Rightarrow> py_error + re_atom list" where
  "re_compile pattern = re_parse [] pattern"

text \<open>
  Matching is the backtracking search of \<open>re\<close>: a greedy repetition tries the longest
  stretch first, the optional prefix is tried before it is skipped, and \<open>fullmatch\<close>
  accepts only at the end of the string. \<open>.\<close> matches any character but a newline and,
  under \<open>re.MULTILINE\<close>, \<open>$\<close> matches at the end of the string and before a newline.
\<close>

fun first_some :: "('a \<Rightarrow> 'b option) \<Rightarrow> 'a list \<Rightarrow> 'b option" where
  "first_some f [] = None"
| "first_some f (x # xs) = (case f x of Some r \<Rightarrow> Some r | None \<Rightarrow> first_some f xs)"

definition down_from :: "nat \<Rightarrow> nat list" where
  "down_from n = rev [0..<Suc n]"

type_synonym groups = "(string \<times> string) list"

fun re_match :: "re_atom list \<Rightarrow> string \<Rightarrow> groups \<Rightarrow> groups option" where
  "re_match [] s g = (if s = [] then Some g else None)"
| "re_match (ReLit c # atoms) s g =
     (case s of [] \<Rightarrow> None | x # xs \<Rightarrow> if x = c then re_match atoms xs g else None)"
| "re_match (ReAny # atoms) s g =
     (case s of [] \<Rightarrow> None | x # xs \<Rightarrow> if x \<noteq> CHR 0x0A then re_match atoms xs g else None)"
| "re_match (ReDollar # atoms) s g =
     (if s = [] \<or> hd s = CHR 0x0A then re_match atoms s g else None)"
| "re_match (ReGroup name # atoms) s g =
     first_some (\<lambda>k. re_match atoms (drop k s) (g @ [(name, take k s)]))
       (down_from (length (takeWhile (\<lambda>c. c \<noteq> CHR '':'') s)))"
| "re_match (ReAnyPrefix # atoms) s g =
     (case first_some
             (\<lambda>k. if k < length s \<and> s ! k = CHR '':'' then re_match atoms (drop (Suc k) s) g
                  else None)
             (down_from (length (takeWhile (\<lambda>c. c \<noteq> CHR 0x0A) s))) of
        Some r \<Rightarrow> Some r
      | None \<Rightarrow> re_match atoms s g)"

definition re_fullmatch :: "re_atom list \<Rightarrow> string \<Rightarrow> groups option" where
  "re_fullmatch compile_pattern key = re_match compile_pattern key []"

section \<open>The template registry (formatter.py)\<close>

text \<open>
  A function is known to the registry by \<open>(func.__module__ or "", func.__name__)\<close>.
  \<open>_REGISTER\<close> maps that pair to a set of pairs of a template and its compiled pattern. It
  is a list of entries here, each with a list without duplicates; a new element goes to
  the end. Python does not fix the order in which a set is iterated: what is proved about
  the lookups is proved for every registry, whatever its order.
\<close>

type_synonym func_id = "string \<times> string"
type_synonym registry = "(func_id \<times> (string \<times> re_atom list) list) list"

definition func_key :: "string option \<times> string \<Rightarrow> func_id" where
  "func_key func = (case func of (modname, name) \<Rightarrow> (case modname of None \<Rightarrow> [] | Some m \<Rightarrow> m, name))"

fun registry_add :: "registry \<Rightarrow> func_id \<Rightarrow> string \<times> re_atom list \<Rightarrow> registry" where
  "registry_add [] fk entry = [(fk, [entry])]"
| "registry_add ((fk', templates) # reg) fk entry =
     (if fk' = fk then (fk', if entry \<in> set templates then templates else templates @ [entry]) # reg
      else (fk', templates) # registry_add reg fk entry)"

definition register_template ::
  "registry \<Rightarrow> string option \<times> string \<Rightarrow> string \<Rightarrow> py_error + registry" where
  "register_template reg func template =
     (case template_to_pattern re_formatter template Map.empty of
        Inl e \<Rightarrow> Inl e
      | Inr p \<Rightarrow>
          (case re_compile (''(.*[:])?'' @ p @ ''$'') of
             Inl e \<Rightarrow> Inl e
           | Inr compile_pattern \<Rightarrow>
               Inr (registry_add reg (func_key func) (template, compile_pattern))))"

definition get_templates_for_func :: "registry \<Rightarrow> string option \<times> string \<Rightarrow> string list" where
  "get_templates_for_func reg func =
     (case map_of reg (func_key func) of None \<Rightarrow> [] | Some templates \<Rightarrow> map fst templates)"

text \<open>The two loops of the lookups, flattened: the triples in the order of iteration.\<close>

definition registry_triples :: "registry \<Rightarrow> (func_id \<times> string \<times> re_atom list) list" where
  "registry_triples reg =
     concat (map (\<lambda>(fk, templates). map (\<lambda>(template, cp). (fk, template, cp)) templates) reg)"

fun get_template_and_func_for_triples ::
  "(func_id \<times> string \<times> re_atom list) list \<Rightarrow> string \<Rightarrow> py_error + (string \<times> func_id) option" where
  "get_template_and_func_for_triples [] key = Inr None"
| "get_template_and_func_for_triples ((fk, template, compile_pattern) # ts) key =
     (case re_fullmatch compile_pattern key of
        Some m \<Rightarrow>
          (case template_to_pattern replace_formatter template Map.empty of
             Inl e \<Rightarrow> Inl e
           | Inr p \<Rightarrow> Inr (Some (p, fk)))
      | None \<Rightarrow> get_template_and_func_for_triples ts key)"

definition get_template_and_func_for :: "registry \<Rightarrow> string \<Rightarrow> py_error + (string \<times> func_id) option" where
  "get_template_and_func_for reg key = get_template_and_func_for_triples (registry_triples reg) key"

fun get_template_for_key_triples ::
  "(func_id \<times> string \<times> re_atom list) list \<Rightarrow> string \<Rightarrow> (string \<times> (string \<rightharpoonup> string)) option" where
  "get_template_for_key_triples [] key = None"
| "get_template_for_key_triples ((fk, template, compile_pattern) # ts) key =
     (case re_fullmatch compile_pattern key of
        Some m \<Rightarrow> Some (template, map_of m)
      | None \<Rightarrow> get_template_for_key_triples ts key)"

definition get_template_for_key :: "registry \<Rightarrow> string \<Rightarrow> (string \<times> (string \<rightharpoonup> string)) option" where
  "get_template_for_key reg key = get_template_for_key_triples (registry_triples reg) key"

section \<open>Templates whose keys can be read back\<close>

text \<open>The name of the group of a field: the dots of the field name become underscores.\<close>

definition group_name :: "string \<Rightarrow> string" where
  "group_name field_name = map (\<lambda>c. if c = CHR ''.'' then CHR ''_'' else c) field_name"

definition item_fields :: "item list \<Rightarrow> string list" where
  "item_fields items = concat (map (\<lambda>(literal_text, fo). case fo of None \<Rightarrow> [] | Some f \<Rightarrow> [fst f]) items)"

text \<open>A character of literal text is a literal of the pattern, a dot apart.\<close>

definition lit_atom :: "char \<Rightarrow> re_atom" where
  "lit_atom c = (if c = CHR ''.'' then ReAny else ReLit c)"

text \<open>
  The atoms a template compiles to between the prefix and the \<open>$\<close>, each with the text
  it stands for in the key formatted from the values: a character of literal text for
  itself, a group for the text of its field.
\<close>

definition item_segments :: "formatter \<Rightarrow> (string \<rightharpoonup> pyvalue) \<Rightarrow> item \<Rightarrow> (re_atom \<times> string) list" where
  "item_segments fm kwargs it =
     (case it of
        (literal_text, fo) \<Rightarrow>
          map (\<lambda>c. (lit_atom c, [c])) literal_text
          @ (case fo of
               None \<Rightarrow> []
             | Some f \<Rightarrow> [(ReGroup (group_name (fst f)), field_text fm kwargs (fst f))]))"

definition segments :: "formatter \<Rightarrow> (string \<rightharpoonup> pyvalue) \<Rightarrow> item list \<Rightarrow> (re_atom \<times> string) list" where
  "segments fm kwargs items = concat (map (item_segments fm kwargs) items)"

definition item_atoms :: "item list \<Rightarrow> re_atom list" where
  "item_atoms items = map fst (segments re_formatter Map.empty items)"

text \<open>
  Between two groups there is a literal colon: the flag says that a group has been passed
  and no colon since.
\<close>

fun separated :: "bool \<Rightarrow> re_atom list \<Rightarrow> bool" where
  "separated pending [] = True"
| "separated pending (ReLit c # atoms) = separated (pending \<and> c \<noteq> CHR '':'') atoms"
| "separated pending (ReAny # atoms) = separated pending atoms"
| "separated pending (ReGroup name # atoms) = (\<not> pending \<and> separated True atoms)"
| "separated pending (ReAnyPrefix # atoms) = False"
| "separated pending (ReDollar # atoms) = False"

text \<open>The text of the pattern an atom is compiled from.\<close>

definition atom_text :: "re_atom \<Rightarrow> string" where
  "atom_text a =
     (case a of
        ReLit c \<Rightarrow> [c]
      | ReAny \<Rightarrow> ''.''
      | ReGroup name \<Rightarrow> ''(?P<'' @ name @ ''>[^:]*)''
      | ReAnyPrefix \<Rightarrow> ''(.*[:])?''
      | ReDollar \<Rightarrow> ''$'')"

text \<open>No opening brace of the literal text opens a repetition in the pattern.\<close>

fun braces_literal :: "re_atom list \<Rightarrow> bool" where
  "braces_literal [] = True"
| "braces_literal (a # atoms) =
     ((a = ReLit CHR ''{'' \<longrightarrow> \<not> brace_repeat (concat (map atom_text atoms) @ ''$''))
      \<and> braces_literal atoms)"

text \<open>
  A template is ready for the round trip when, formatted with no values, each of its
  fields is plain and not positional, its literal text has none of the characters
  \<open>^ $ * + ? [ ( ) |\<close> and backslash and no brace that opens a repetition, the group
  names of its fields are identifiers, no two of them equal, and any two consecutive
  fields are separated by literal text with a colon.
\<close>

definition roundtrip_ready :: "item list \<Rightarrow> bool" where
  "roundtrip_ready items =
     (list_all (item_ok re_formatter Map.empty) items
      \<and> list_all (\<lambda>(literal_text, fo). list_all (\<lambda>c. \<not> re_special c) literal_text) items
      \<and> braces_literal (item_atoms items)
      \<and> list_all (\<lambda>n. is_identifier (group_name n)) (item_fields items)
      \<and> distinct (map group_name (item_fields items))
      \<and> separated False (item_atoms items))"

definition colon_free :: "formatter \<Rightarrow> (string \<rightharpoonup> pyvalue) \<Rightarrow> item list \<Rightarrow> bool" where
  "colon_free fm kwargs items =
     list_all (\<lambda>n. CHR '':'' \<notin> set (field_text fm kwargs n)) (item_fields items)"

text \<open>The fields a lookup is to recover: every group name with the text of its field.\<close>

definition recovers ::
  "formatter \<Rightarrow> (string \<rightharpoonup> pyvalue) \<Rightarrow> item list \<Rightarrow> (string \<rightharpoonup> string) \<Rightarrow> bool" where
  "recovers fm kwargs items found =
     list_all (\<lambda>n. found (group_name n) = Some (field_text fm kwargs n)) (item_fields items)"

definition seg_ok :: "re_atom \<times> string \<Rightarrow> bool" where
  "seg_ok seg =
     (case seg of
        (ReLit c, t) \<Rightarrow> t = [c]
      | (ReAny, t) \<Rightarrow> t = ''.''
      | (ReGroup name, t) \<Rightarrow> CHR '':'' \<notin> set t
      | _ \<Rightarrow> False)"

definition seg_groups :: "(re_atom \<times> string) list \<Rightarrow> groups" where
  "seg_groups segs =
     concat (map (\<lambda>(a, t). case a of ReGroup name \<Rightarrow> [(name, t)] | _ \<Rightarrow> []) segs)"

text \<open>
  The atoms of a template: a literal that stands for itself, a dot, a group with an
  identifier for name; and the names of the groups among them.
\<close>

definition template_atom :: "re_atom \<Rightarrow> bool" where
  "template_atom a =
     (case a of
        ReLit c \<Rightarrow> \<not> re_special c \<and> c \<noteq> CHR ''.''
      | ReAny \<Rightarrow> True
      | ReGroup name \<Rightarrow> is_identifier name
      | _ \<Rightarrow> False)"

definition atom_groups :: "re_atom list \<Rightarrow> string list" where
  "atom_groups atoms = concat (map (\<lambda>a. case a of ReGroup name \<Rightarrow> [name] | _ \<Rightarrow> []) atoms)"

section \<open>Concrete inputs\<close>

definition ex_ck :: "unit \<Rightarrow> py_error + string" where
  "ex_ck args = Inr ''rate_limit:f''"

definition ex_func :: "(unit, nat, nat) pyfun" where
  "ex_func args w = (Inr w, Suc w)"

definition ex_failing_func :: "(unit, nat, nat) pyfun" where
  "ex_failing_func args w = (Inl (UserError ''boom''), Suc w)"

definition ex_noop_action :: "(unit, unit, nat) pyfun" where
  "ex_noop_action args w = (Inr (), w)"

definition ex_backend :: "rat backend" where
  "ex_backend = empty_backend"

definition ex_key :: string where
  "ex_key = ''rate_limit:f''"

text \<open>Stand-ins for the library functions, for evaluating the model on concrete inputs.\<close>

definition ex_digest :: "string \<Rightarrow> string \<Rightarrow> string" where
  "ex_digest tag bytes = tag @ bytes"

definition ex_decode :: "string \<Rightarrow> py_error + (string \<rightharpoonup> pyvalue)" where
  "ex_decode payload = Inl ValueError"

definition ex_libs :: libs where
  "ex_libs = \<lparr>md5 = ex_digest ''md5:'', sha1 = ex_digest ''sha1:'',
              sha256 = ex_digest ''sha256:'', decode_payload = ex_decode\<rparr>"

definition ex_funcs :: "string \<rightharpoonup> field_function" where
  "ex_funcs = [''len'' \<mapsto> len_func]"

definition ex_func_formatter :: formatter where
  "ex_func_formatter = \<lparr>fm_default = (\<lambda>name. []), fm_functions = Some ex_funcs\<rparr>"

definition ex_registry :: "py_error + registry" where
  "ex_registry = register_template [] (Some ''app'', ''get_user'') ''user:{id}''"

definition ex_values :: "string \<rightharpoonup> pyvalue" where
  "ex_values = [''id'' \<mapsto> PyInt 5, ''flag'' \<mapsto> PyBool True]"

definition ex_colon_values :: "string \<rightharpoonup> pyvalue" where
  "ex_colon_values = [''name'' \<mapsto> PyStr ''a:b'']"

definition ex_owner :: "string option \<times> string" where
  "ex_owner = (Some ''app'', ''get_user'')"

definition ex_none_values :: "string \<rightharpoonup> pyvalue" where
  "ex_none_values = [''a'' \<mapsto> PyNone]"

definition ex_user_values :: "string \<rightharpoonup> pyvalue" where
  "ex_user_values =
     [''user'' \<mapsto> PyObj ''user 5'' ''<User 5>'' [(''id'', PyInt 5)], ''flag'' \<mapsto> PyBool True]"

section \<open>Properties of the two policies\<close>

lemma incr_count_pos: "incr k b = (n, b1) \<Longrightarrow> n \<noteq> 0"
  by (auto simp: incr_def Let_def split: option.splits)

lemma incr_calls: "incr k b = (n, b1) \<Longrightarrow> calls b1 = calls b @ [Incr k]"
  by (auto simp: incr_def Let_def)

lemma incr_counters: "incr k b = (n, b1) \<Longrightarrow> counters b1 k = Some n"
  by (auto simp: incr_def Let_def)

lemma expire_counters: "counters (expire k t b) = counters b"
  by (simp add: expire_def)

lemma expire_calls: "calls (expire k t b) = calls b @ [Expire k t]"
  by (simp add: expire_def)

lemma expire_timeouts: "counters b k = Some n \<Longrightarrow> timeouts (expire k t b) k = Some t"
  by (auto simp: expire_def)

lemma rate_ban_counters: "counters (rate_ban limit ttl k n b) = counters b"
  by (simp add: rate_ban_def expire_counters split: option.splits)

lemma rate_ban_calls:
  "calls (rate_ban limit ttl k n b) =
     calls b @ (case ttl of None \<Rightarrow> []
                | Some t \<Rightarrow> if t \<noteq> 0 \<and> int n = limit + 1 then [Expire k t] else [])"
  by (simp add: rate_ban_def expire_calls split: option.splits)

text \<open>
  Claim C4. When the incremented counter of a rate-limited call exceeds the limit, the
  action is called with the arguments of the call. If it raises, that exception is the
  outcome of the call; the default action raises \<open>RateLimitException\<close>. If it returns, its
  value is dropped, the wrapped function is called with the same arguments and its outcome
  is the outcome of the call.
\<close>

theorem rate_over_limit_action:
  fixes action :: "('a, 'x, 'w) pyfun"
  assumes "ck args = Inr k" and "incr k b = (n, b1)" and "int n > limit"
  shows "(action args w = (Inl e, w') \<longrightarrow>
            rate_wrapped_func ck limit period ttl action func args (b, w)
              = (Inl e, rate_ban limit ttl k n b1, w'))
       \<and> rate_wrapped_func ck limit period ttl (default_action :: ('a, 'x, 'w) pyfun) func args (b, w)
              = (Inl RateLimitException, rate_ban limit ttl k n b1, w)
       \<and> (action args w = (Inr x, w') \<longrightarrow>
            rate_wrapped_func ck limit period ttl action func args (b, w)
              = rate_call_func period func k n args (rate_ban limit ttl k n b1, w')
          \<and> fst (rate_wrapped_func ck limit period ttl action func args (b, w)) = fst (func args w')
          \<and> snd (snd (rate_wrapped_func ck limit period ttl action func args (b, w)))
               = snd (func args w'))"
proof -
  have n0: "n \<noteq> 0" using assms(2) by (rule incr_count_pos)
  show ?thesis
    using assms n0
    by (simp add: rate_wrapped_func_def rate_call_func_def default_action_def Let_def
          split: prod.splits)
qed

theorem rate_over_limit_action_witness:
  "ex_ck () = Inr ex_key \<and> incr ex_key ex_backend = (1, snd (incr ex_key ex_backend))
   \<and> int 1 > 0
   \<and> rate_wrapped_func ex_ck 0 60 (Some 300) (default_action :: (unit, unit, nat) pyfun) ex_func () (ex_backend, 0)
        = (Inl RateLimitException, rate_ban 0 (Some 300) ex_key 1 (snd (incr ex_key ex_backend)), 0)
   \<and> ex_noop_action () 0 = (Inr (), 0)
   \<and> fst (rate_wrapped_func ex_ck 0 60 (Some 300) ex_noop_action ex_func () (ex_backend, 0))
        = fst (ex_func () 0)"
proof -
  have h1: "ex_ck () = Inr ex_key" by (simp add: ex_ck_def ex_key_def)
  have h2: "incr ex_key ex_backend = (1, snd (incr ex_key ex_backend))"
    by (simp add: incr_def ex_backend_def empty_backend_def)
  have h3: "int 1 > 0" by simp
  have h4: "ex_noop_action () 0 = (Inr (), 0)" by (simp add: ex_noop_action_def)
  show ?thesis
    using h1 h2 h3 h4
      rate_over_limit_action [where ck = ex_ck and args = "()" and action = ex_noop_action and func = ex_func
        and w = 0 and w' = 0 and x = "()" and period = 60 and ttl = "Some 300", OF h1 h2 h3]
    by blast
qed

text \<open>
  Claim C5 does not hold when the limit is 0 and the action raises: the first increment is
  then already over the limit, the expiry is set to \<open>ttl\<close>, and the action raises before
  the expiry is set to \<open>period\<close>.
\<close>

theorem rate_first_call_counterexample:
  "fst (incr ex_key ex_backend) = 1
   \<and> timeouts (fst (snd (rate_wrapped_func ex_ck 0 60 (Some 300) (default_action :: (unit, unit, nat) pyfun) ex_func ()
        (ex_backend, 0)))) ex_key = Some 300
   \<and> calls (fst (snd (rate_wrapped_func ex_ck 0 60 (Some 300) (default_action :: (unit, unit, nat) pyfun) ex_func ()
        (ex_backend, 0)))) = [Incr ex_key, Expire ex_key 300]"
  by (simp add: rate_wrapped_func_def rate_ban_def expire_def incr_def default_action_def
        ex_ck_def ex_key_def ex_backend_def empty_backend_def)

text \<open>
  Claim C5, amended. The calls a rate-limited call issues to the backend are: the increment;
  then, exactly when \<open>ttl\<close> is given and not zero and the counter equals \<open>limit + 1\<close>, the
  expiry \<open>ttl\<close>; then, exactly when the counter equals 1 and the wrapped function is reached
  (the call is within the limit or the action returned), the expiry \<open>period\<close>, which is
  then the expiry of the key.
\<close>

theorem rate_expiry_calls:
  assumes "ck args = Inr k" and "incr k b = (n, b1)"
  shows "calls (fst (snd (rate_wrapped_func ck limit period ttl action func args (b, w)))) =
           calls b @ [Incr k]
           @ (case ttl of None \<Rightarrow> []
              | Some t \<Rightarrow> if t \<noteq> 0 \<and> int n = limit + 1 then [Expire k t] else [])
           @ (if n = 1 \<and> rate_reaches_func limit n (fst (action args w))
              then [Expire k period] else [])
       \<and> (n = 1 \<and> rate_reaches_func limit n (fst (action args w)) \<longrightarrow>
            timeouts (fst (snd (rate_wrapped_func ck limit period ttl action func args (b, w)))) k
              = Some period)"
proof -
  have n0: "n \<noteq> 0" using assms(2) by (rule incr_count_pos)
  have c1: "calls b1 = calls b @ [Incr k]" using assms(2) by (rule incr_calls)
  have k1: "counters b1 k = Some n" using assms(2) by (rule incr_counters)
  have k2: "counters (rate_ban limit ttl k n b1) k = Some n"
    by (simp add: rate_ban_counters k1)
  show ?thesis
  proof (cases "int n > limit")
    case False
    then show ?thesis
      using assms n0 c1 k1
      by (auto simp: rate_wrapped_func_def rate_call_func_def rate_reaches_func_def Let_def
            expire_calls expire_timeouts split: prod.splits option.splits)
  next
    case True
    then show ?thesis
      using assms n0 c1 k2
      by (cases "action args w"; cases "fst (action args w)")
         (auto simp: rate_wrapped_func_def rate_call_func_def rate_reaches_func_def Let_def
            expire_calls expire_timeouts rate_ban_calls split: prod.splits option.splits)
  qed
qed

theorem rate_expiry_calls_witness:
  "ex_ck () = Inr ex_key \<and> incr ex_key ex_backend = (1, snd (incr ex_key ex_backend))
   \<and> (1::nat) = 1 \<and> rate_reaches_func 2 1 (fst (ex_noop_action () (0::nat)))
   \<and> calls (fst (snd (rate_wrapped_func ex_ck 2 60 (Some 300) ex_noop_action ex_func ()
        (ex_backend, 0)))) = [Incr ex_key, Expire ex_key 60]
   \<and> timeouts (fst (snd (rate_wrapped_func ex_ck 2 60 (Some 300) ex_noop_action ex_func ()
        (ex_backend, 0)))) ex_key = Some 60"
proof -
  have h1: "ex_ck () = Inr ex_key" by (simp add: ex_ck_def ex_key_def)
  have h2: "incr ex_key ex_backend = (1, snd (incr ex_key ex_backend))"
    by (simp add: incr_def ex_backend_def empty_backend_def)
  have h3: "rate_reaches_func 2 1 (fst (ex_noop_action () (0::nat)))"
    by (simp add: rate_reaches_func_def)
  have c: "calls ex_backend = []" by (simp add: ex_backend_def empty_backend_def)
  show ?thesis
    using h1 h2 h3 c
      rate_expiry_calls [where ck = ex_ck and args = "()" and action = ex_noop_action and func = ex_func
        and w = 0 and period = 60 and ttl = "Some 300" and limit = 2, OF h1 h2]
    by simp
qed

text \<open>
  Claim C6. A call of a perf-decorated function while the lock of its key exists raises
  \<open>PerfDegradationException\<close> and leaves every state as it was, whatever the wrapped
  function is. Otherwise, after the wrapped function has returned: when the trace holds
  \<open>trace_size\<close> entries and the condition holds, the lock is set with the duration and
  \<open>ttl\<close> and the trace is emptied; when the trace is not full or the condition is false,
  the duration is appended, the oldest entry leaving a full trace, and no lock is set.
\<close>

theorem perf_trace_and_lock:
  assumes "ck args = Inr k" and "length tr \<le> trace_size"
  shows "(is_locked (k @ '':lock'') b \<longrightarrow>
            perf_wrap ck ttl trace_size pc func takes args (b, tr, w)
              = (Inl PerfDegradationException, b, tr, w))
       \<and> (\<not> is_locked (k @ '':lock'') b \<and> func args w = (Inr result, w')
            \<and> length tr = trace_size \<and> pc takes tr = Inr True \<longrightarrow>
            perf_wrap ck ttl trace_size pc func takes args (b, tr, w)
              = (Inr result, set_lock (k @ '':lock'') takes ttl b, [], w')
            \<and> locks (set_lock (k @ '':lock'') takes ttl b) (k @ '':lock'') = Some (takes, ttl))
       \<and> (\<not> is_locked (k @ '':lock'') b \<and> func args w = (Inr result, w')
            \<and> (length tr \<noteq> trace_size \<or> pc takes tr = Inr False) \<longrightarrow>
            perf_wrap ck ttl trace_size pc func takes args (b, tr, w)
              = (Inr result, b,
                 (if length tr = trace_size then tl (tr @ [takes]) else tr @ [takes]), w'))"
  using assms
  by (auto simp: perf_wrap_def deque_append_def set_lock_def Let_def)

theorem perf_trace_and_lock_witness:
  "ex_ck () = Inr ex_key \<and> length [1, 1, 1 :: rat] \<le> 3
   \<and> \<not> is_locked (ex_key @ '':lock'') ex_backend \<and> ex_func () 0 = (Inr 0, 1)
   \<and> default_perf_condition 3 [1, 1, 1] = Inr True
   \<and> perf_wrap ex_ck 10 3 default_perf_condition ex_func 3 () (ex_backend, [1, 1, 1], 0)
       = (Inr 0, set_lock (ex_key @ '':lock'') 3 10 ex_backend, [], 1)
   \<and> is_locked (ex_key @ '':lock'') (set_lock (ex_key @ '':lock'') 3 10 ex_backend)
   \<and> perf_wrap ex_ck 10 3 default_perf_condition ex_func 1 ()
        (set_lock (ex_key @ '':lock'') 3 10 ex_backend, [], 1)
       = (Inl PerfDegradationException, set_lock (ex_key @ '':lock'') 3 10 ex_backend, [], 1)
   \<and> default_perf_condition 1 [1, 1, 1] = Inr False
   \<and> perf_wrap ex_ck 10 3 default_perf_condition ex_func 1 () (ex_backend, [1, 1, 1], 0)
       = (Inr 0, ex_backend, [1, 1, 1], 1)"
proof -
  have h1: "ex_ck () = Inr ex_key" by (simp add: ex_ck_def ex_key_def)
  have h2: "length [1, 1, 1 :: rat] \<le> 3" by simp
  have h0: "length ([] :: rat list) \<le> 3" by simp
  have h3: "\<not> is_locked (ex_key @ '':lock'') ex_backend"
    by (simp add: is_locked_def ex_backend_def empty_backend_def)
  have h4: "ex_func () 0 = (Inr 0, 1)" by (simp add: ex_func_def)
  have h5: "default_perf_condition 3 [1, 1, 1] = Inr True"
    by (simp add: default_perf_condition_def)
  have h6: "is_locked (ex_key @ '':lock'') (set_lock (ex_key @ '':lock'') 3 10 ex_backend)"
    by (simp add: is_locked_def set_lock_def)
  have h7: "default_perf_condition 1 [1, 1, 1] = Inr False"
    by (simp add: default_perf_condition_def)
  note a = perf_trace_and_lock [where ck = ex_ck and args = "()" and b = ex_backend and func = ex_func and w = 0
      and w' = 1 and result = 0 and pc = default_perf_condition and takes = 3 and ttl = 10, OF h1 h2]
  note b = perf_trace_and_lock [where ck = ex_ck and args = "()" and b = "set_lock (ex_key @ '':lock'') 3 10 ex_backend"
      and func = ex_func and w = 1 and pc = default_perf_condition and takes = 1 and ttl = 10, OF h1 h0]
  note c = perf_trace_and_lock [where ck = ex_ck and args = "()" and b = ex_backend and func = ex_func and w = 0
      and w' = 1 and result = 0 and pc = default_perf_condition and takes = 1 and ttl = 10, OF h1 h2]
  show ?thesis
    using h1 h3 h4 h5 h6 h7 a b c by simp
qed

text \<open>
  Claim C2 does not hold for the perf decorator: when the wrapped function raises, the
  duration is never computed and the trace stays as it was.
\<close>

theorem perf_failing_call_counterexample:
  "ex_failing_func () 0 = (Inl (UserError ''boom''), 1)
   \<and> perf_wrap ex_ck 10 3 default_perf_condition ex_failing_func 5 () (ex_backend, [], 0)
       = (Inl (UserError ''boom''), ex_backend, [], 1)"
  by (simp add: perf_wrap_def ex_failing_func_def ex_ck_def is_locked_def ex_backend_def
        empty_backend_def)

text \<open>
  Claim C2, amended. When the wrapped function raises, its exception is the outcome of the
  decorated call. Under the rate limiter the counter of the key has been incremented.
  Under the perf decorator the trace and the backend are unchanged.
\<close>

theorem wrapped_failure_propagates:
  assumes "ck args = Inr k" and "incr k b = (n, b1)"
  shows "(int n \<le> limit \<and> func args w = (Inl e, w') \<longrightarrow>
            fst (rate_wrapped_func ck limit period ttl action func args (b, w)) = Inl e
          \<and> counters (fst (snd (rate_wrapped_func ck limit period ttl action func args (b, w)))) k
              = Some n)
       \<and> (limit < int n \<and> action args w = (Inr x, w1) \<and> func args w1 = (Inl e, w') \<longrightarrow>
            fst (rate_wrapped_func ck limit period ttl action func args (b, w)) = Inl e
          \<and> counters (fst (snd (rate_wrapped_func ck limit period ttl action func args (b, w)))) k
              = Some n)
       \<and> (\<not> is_locked (k @ '':lock'') pb \<and> func args w = (Inl e, w') \<longrightarrow>
            perf_wrap ck ttl' trace_size pc func takes args (pb, tr, w) = (Inl e, pb, tr, w'))"
proof -
  have n0: "n \<noteq> 0" using assms(2) by (rule incr_count_pos)
  have k1: "counters b1 k = Some n" using assms(2) by (rule incr_counters)
  show ?thesis
    using assms n0 k1
    by (auto simp: rate_wrapped_func_def rate_call_func_def perf_wrap_def Let_def
          expire_counters rate_ban_counters)
qed

theorem wrapped_failure_propagates_witness:
  "ex_ck () = Inr ex_key \<and> incr ex_key ex_backend = (1, snd (incr ex_key ex_backend))
   \<and> int 1 \<le> 2 \<and> ex_failing_func () 0 = (Inl (UserError ''boom''), 1)
   \<and> \<not> is_locked (ex_key @ '':lock'') ex_backend
   \<and> fst (rate_wrapped_func ex_ck 2 60 None (default_action :: (unit, unit, nat) pyfun) ex_failing_func () (ex_backend, 0))
       = Inl (UserError ''boom'')
   \<and> counters (fst (snd (rate_wrapped_func ex_ck 2 60 None (default_action :: (unit, unit, nat) pyfun) ex_failing_func ()
        (ex_backend, 0)))) ex_key = Some 1
   \<and> perf_wrap ex_ck 10 3 default_perf_condition ex_failing_func 5 () (ex_backend, [1, 1], 0)
       = (Inl (UserError ''boom''), ex_backend, [1, 1], 1)"
proof -
  have h1: "ex_ck () = Inr ex_key" by (simp add: ex_ck_def ex_key_def)
  have h2: "incr ex_key ex_backend = (1, snd (incr ex_key ex_backend))"
    by (simp add: incr_def ex_backend_def empty_backend_def)
  have h3: "\<not> is_locked (ex_key @ '':lock'') ex_backend"
    by (simp add: is_locked_def ex_backend_def empty_backend_def)
  have h4: "ex_failing_func () 0 = (Inl (UserError ''boom''), 1)"
    by (simp add: ex_failing_func_def)
  show ?thesis
    using h1 h2 h3 h4
      wrapped_failure_propagates [where ck = ex_ck and args = "()" and limit = 2 and func = ex_failing_func
        and w = 0 and w' = 1 and e = "UserError ''boom''" and pb = ex_backend
        and action = "default_action :: (unit, unit, nat) pyfun" and period = 60 and ttl = None and ttl' = 10
        and trace_size = 3 and pc = default_perf_condition and takes = 5 and tr = "[1, 1]", OF h1 h2]
    by simp
qed

section \<open>Properties of the field functions and of \<open>format_field\<close>\<close>

lemma algs_None: "alg \<notin> hash_names \<Longrightarrow> algs L alg = None"
  by (simp add: algs_def hash_names_def)

text \<open>
  Claim C7 does not hold for every value: \<open>_hash_func\<close> declares \<open>value: str\<close> and calls
  \<open>value.encode()\<close>, which an integer does not have.
\<close>

theorem hash_func_int_counterexample:
  "''md5'' \<in> hash_names \<and> hash_func ex_libs (PyInt 5) [''md5''] = Inl AttributeError
   \<and> hash_func ex_libs (PyInt 5) [] = Inl AttributeError"
  by (simp add: hash_names_def hash_func_def hash_alg_def algs_def)

text \<open>
  Claim C7, amended. With an algorithm argument outside \<open>sha1\<close>, \<open>md5\<close>, \<open>sha256\<close> the
  \<open>hash\<close> function raises \<open>KeyError\<close>, whatever the value; for a \<open>str\<close> value, with an
  argument of the set it returns that digest of the encoded value, and with no argument
  the \<open>md5\<close> digest.
\<close>

theorem hash_func_algorithms:
  "(alg \<notin> hash_names \<longrightarrow> hash_func L v [alg] = Inl (KeyError alg))
   \<and> hash_func L (PyStr s) [''sha1''] = Inr (PyStr (sha1 L (py_encode s)))
   \<and> hash_func L (PyStr s) [''md5''] = Inr (PyStr (md5 L (py_encode s)))
   \<and> hash_func L (PyStr s) [''sha256''] = Inr (PyStr (sha256 L (py_encode s)))
   \<and> hash_func L (PyStr s) [] = Inr (PyStr (md5 L (py_encode s)))"
  by (simp add: hash_func_def hash_alg_def algs_None) (simp add: algs_def)

theorem hash_func_algorithms_witness:
  "''sha512'' \<notin> hash_names
   \<and> hash_func ex_libs (PyStr ''abc'') [''sha512''] = Inl (KeyError ''sha512'')
   \<and> hash_func ex_libs (PyStr ''abc'') [''sha256''] = Inr (PyStr ''sha256:abc'')
   \<and> hash_func ex_libs (PyStr ''abc'') [] = Inr (PyStr ''md5:abc'')"
proof -
  have h: "''sha512'' \<notin> hash_names" by (simp add: hash_names_def)
  have e: "py_encode ''abc'' = ''abc''" by code_simp
  show ?thesis
    using h e hash_func_algorithms [of "''sha512''" ex_libs "PyStr ''abc''" "''abc''"]
    by (simp add: ex_libs_def ex_digest_def)
qed

lemma parse_format_spec_call:
  assumes "CHR ''('' \<notin> set al"
  shows "parse_format_spec (al @ ''()'') = (al, [[]])"
proof -
  have t: "takeWhile (\<lambda>c. c \<noteq> CHR ''('') (al @ ''()'') = al"
    using assms by (induction al) auto
  have d: "dropWhile (\<lambda>c. c \<noteq> CHR ''('') (al @ ''()'') = ''()''"
    using assms by (induction al) auto
  show ?thesis
    by (simp add: parse_format_spec_def t d)
qed

text \<open>
  Claim C9. For an alias \<open>al\<close> (a name without an opening parenthesis, as a specifier can
  name it) registered with the function \<open>f\<close>, the specifier \<open>al()\<close> is parsed into the alias
  and the one argument \<open>''\<close>, and the field is formatted by calling \<open>f\<close> with the value and
  that one empty string.
\<close>

theorem empty_parentheses_pass_one_argument:
  assumes "CHR ''('' \<notin> set al" and "funcs al = Some f"
  shows "parse_format_spec (al @ ''()'') = (al, [[]])
       \<and> func_format_field funcs v (al @ ''()'')
           = (case f v [[]] of Inl e \<Rightarrow> Inl e | Inr r \<Rightarrow> Inr (py_str r))
       \<and> format_field \<lparr>fm_default = d, fm_functions = Some funcs\<rparr> v (al @ ''()'')
           = (case f v [[]] of Inl e \<Rightarrow> Inl e | Inr r \<Rightarrow> Inr (py_str r))"
  using assms
  by (simp add: parse_format_spec_call func_format_field_def format_field_def
        replace_format_field_def format_value_def py_format_def py_str_def split: sum.splits)

theorem empty_parentheses_pass_one_argument_witness:
  "CHR ''('' \<notin> set ''len'' \<and> ex_funcs ''len'' = Some len_func
   \<and> parse_format_spec ''len()'' = (''len'', [[]])
   \<and> len_func (PyStr ''abc'') [[]] = Inl TypeError
   \<and> len_func (PyStr ''abc'') [] = Inr (PyInt 3)
   \<and> func_format_field ex_funcs (PyStr ''abc'') ''len()'' = Inl TypeError"
proof -
  have h1: "CHR ''('' \<notin> set ''len''" by simp
  have h2: "ex_funcs ''len'' = Some len_func" by (simp add: ex_funcs_def)
  have l1: "len_func (PyStr ''abc'') [[]] = Inl TypeError" by (simp add: len_func_def)
  have l2: "len_func (PyStr ''abc'') [] = Inr (PyInt 3)" by (simp add: len_func_def)
  show ?thesis
    using h1 h2 l1 l2
      empty_parentheses_pass_one_argument
        [where al = "''len''" and funcs = ex_funcs and f = len_func and v = "PyStr ''abc''", OF h1 h2]
    by simp
qed

lemma py_lower_True: "py_lower ''True'' = ''true''"
  by code_simp

lemma py_lower_False: "py_lower ''False'' = ''false''"
  by code_simp

lemma replace_format_field_eq: "replace_format_field v spec = default_stringification v"
  by (cases v)
     (simp_all add: replace_format_field_def default_stringification_def format_value_def
        py_format_def py_str_def py_lower_True py_lower_False)

lemma format_field_unaliased:
  assumes "case fm_functions fm of None \<Rightarrow> True
           | Some funcs \<Rightarrow> funcs (fst (parse_format_spec spec)) = None"
  shows "format_field fm v spec = Inr (default_stringification v)"
  using assms
  by (auto simp: format_field_def func_format_field_def replace_format_field_eq
        split: option.splits prod.splits)

section \<open>Formatting a template of plain fields\<close>

lemma takeWhile_all: "list_all P s \<Longrightarrow> takeWhile P s = s"
  by (induction s) auto

lemma dropWhile_all: "list_all P s \<Longrightarrow> dropWhile P s = []"
  by (induction s) auto

lemma formatter_parser_Nil: "formatter_parser [] = ([], None)"
  by (simp add: formatter_parser.simps)

lemma formatter_parser_literal:
  assumes "list_all (\<lambda>c. \<not> is_brace c) s"
  shows "formatter_parser s = (if s = [] then [] else [(s, None)], None)"
proof (cases "s = []")
  case True
  then show ?thesis by (simp add: formatter_parser_Nil)
next
  case False
  have "markup_next s = Inr ((s, None), [])"
    using assms by (simp add: markup_next_def takeWhile_all dropWhile_all)
  then show ?thesis
    using False by (subst formatter_parser.simps) (simp add: formatter_parser_Nil)
qed

lemma vformat_depth_literal:
  assumes "list_all (\<lambda>c. \<not> is_brace c) s"
  shows "vformat_depth fm kwargs (Suc d) manual s = Inr (s, manual)"
  using assms by (simp add: formatter_parser_literal)

lemma format_field_plain:
  assumes "plain_field fm (name, spec, conv)"
  shows "format_field fm v spec = Inr (default_stringification v)"
  using assms by (intro format_field_unaliased) (simp add: plain_field_def)

lemma format_one_plain:
  assumes "plain_field fm f" and "resolves fm kwargs (fst f)"
  shows "format_one fm kwargs (vformat_depth fm kwargs (Suc d)) manual f
           = Inr (field_text fm kwargs (fst f), manual \<or> list_all py_isdigit (fst f))"
proof -
  obtain name spec conv where f: "f = (name, spec, conv)" by (cases f) auto
  from assms(1) f have p: "name \<noteq> []" "conv = None" "list_all (\<lambda>c. \<not> is_brace c) spec"
    by (auto simp: plain_field_def)
  from assms(2) f obtain v where g: "get_field fm kwargs name = Inr v"
    by (auto simp: resolves_def split: sum.splits)
  have e: "vformat_depth fm kwargs (Suc d) (manual \<or> list_all py_isdigit name) spec
             = Inr (spec, manual \<or> list_all py_isdigit name)"
    using p(3) by (rule vformat_depth_literal)
  have ff: "format_field fm v spec = Inr (default_stringification v)"
    using assms(1) f by (auto intro: format_field_plain)
  show ?thesis
    using p g e ff f
    by (simp add: format_one_def convert_field_def field_text_def del: vformat_depth.simps)
qed

lemma item_text_None: "item_text fm kwargs (lit, None) = lit"
  by (simp add: item_text_def)

lemma item_text_Some: "item_text fm kwargs (lit, Some f) = lit @ field_text fm kwargs (fst f)"
  by (simp add: item_text_def)

lemma format_items_plain:
  assumes "list_all (item_ok fm kwargs) items"
  shows "\<exists>manual'. format_items fm kwargs (vformat_depth fm kwargs (Suc d)) None manual items
           = Inr (concat (map (item_text fm kwargs) items), manual')"
  using assms
proof (induction items arbitrary: manual)
  case Nil
  then show ?case by simp
next
  case (Cons it items)
  obtain lit fo where it: "it = (lit, fo)" by (cases it) auto
  from Cons.prems have ok: "list_all (item_ok fm kwargs) items" by simp
  show ?case
  proof (cases fo)
    case None
    from Cons.IH [OF ok, of manual] obtain m where
      "format_items fm kwargs (vformat_depth fm kwargs (Suc d)) None manual items
         = Inr (concat (map (item_text fm kwargs) items), m)" by blast
    with it None show ?thesis
      by (simp add: item_text_None del: vformat_depth.simps)
  next
    case (Some f)
    with Cons.prems it have "plain_field fm f" "resolves fm kwargs (fst f)"
      by (auto simp: item_ok_def)
    then have o: "format_one fm kwargs (vformat_depth fm kwargs (Suc d)) manual f
                 = Inr (field_text fm kwargs (fst f), manual \<or> list_all py_isdigit (fst f))"
      by (rule format_one_plain)
    from Cons.IH [OF ok, of "manual \<or> list_all py_isdigit (fst f)"] obtain m where
      "format_items fm kwargs (vformat_depth fm kwargs (Suc d)) None
         (manual \<or> list_all py_isdigit (fst f)) items
         = Inr (concat (map (item_text fm kwargs) items), m)" by blast
    with o it Some show ?thesis
      by (simp add: item_text_Some del: vformat_depth.simps)
  qed
qed

lemma vformat_plain:
  assumes "formatter_parser template = (items, None)" and "list_all (item_ok fm kwargs) items"
  shows "vformat fm template kwargs = Inr (concat (map (item_text fm kwargs) items))"
proof -
  obtain m where "format_items fm kwargs (vformat_depth fm kwargs (Suc 1)) None False items
                    = Inr (concat (map (item_text fm kwargs) items), m)"
    using format_items_plain [OF assms(2)] by blast
  then show ?thesis
    using assms(1) by (simp add: vformat_def eval_nat_numeral del: format_items.simps)
qed

lemma get_field_absent:
  assumes "get_integer (first_part name) = Inr None" and "kwargs (first_part name) = None"
  shows "get_field fm kwargs name = Inr (PyStr (fm_default fm name))"
  using assms
  by (simp add: get_field_def formatter_get_field_def get_value_def first_part_def is_caught_def)

section \<open>Fields whose name is not bound\<close>

lemma cex_positional: "vformat replace_formatter ''{0}'' Map.empty = Inl IndexError"
  by code_simp

lemma cex_conversion:
  "vformat replace_formatter ''x{a!r}'' Map.empty = Inr [CHR ''x'', CHR 0x27, CHR ''*'', CHR 0x27]"
  by code_simp

lemma cex_function: "vformat (default_formatter ex_libs) ''{token:jwt(sub)}'' Map.empty = Inl ValueError"
  by code_simp

text \<open>
  Claim C8 does not hold for every template. With no value bound: a positional field
  raises \<open>IndexError\<close>, which \<open>get_field\<close> does not catch; a conversion is applied to the
  marker, so \<open>{a!r}\<close> gives the marker in quotes; and \<open>default_formatter\<close>, whose marker is
  the empty string, passes it to the function the specifier names, so \<open>jwt\<close> raises.
\<close>

theorem absent_field_counterexample:
  "vformat replace_formatter ''{0}'' Map.empty = Inl IndexError
   \<and> vformat replace_formatter ''x{a!r}'' Map.empty = Inr [CHR ''x'', CHR 0x27, CHR ''*'', CHR 0x27]
   \<and> vformat (default_formatter ex_libs) ''{token:jwt(sub)}'' Map.empty = Inl ValueError"
  using cex_positional cex_conversion cex_function by blast

text \<open>
  Claim C8, amended. When the template is well formed and each of its fields is plain
  (named, without conversion, with a specifier that has no nested field and names no
  registered function) and resolves, formatting raises no error and yields, item by item,
  the literal text followed by the field's text; for a field whose name is not a number
  and is absent from the value map that text is the marker of the formatter's default
  policy, which is \<open>*\<close> for the default \<open>_ReplaceFormatter\<close>.
\<close>

theorem absent_field_gets_marker:
  assumes "formatter_parser template = (items, None)"
    and "list_all (item_ok fm kwargs) items"
    and "get_integer (first_part name) = Inr None"
    and "kwargs (first_part name) = None"
  shows "vformat fm template kwargs = Inr (concat (map (item_text fm kwargs) items))
       \<and> resolves fm kwargs name
       \<and> item_text fm kwargs (lit, Some (name, spec, conv)) = lit @ fm_default fm name
       \<and> fm_default replace_formatter name = ''*''"
proof -
  have g: "get_field fm kwargs name = Inr (PyStr (fm_default fm name))"
    using assms(3,4) by (rule get_field_absent)
  have v: "vformat fm template kwargs = Inr (concat (map (item_text fm kwargs) items))"
    using assms(1,2) by (rule vformat_plain)
  show ?thesis
    using g v
    by (simp add: resolves_def item_text_def field_text_def default_stringification_def
          py_str_def replace_formatter_def)
qed

lemma ex_parse: "formatter_parser ''user:{id}:{name:>5}'' =
    ([(''user:'', Some (''id'', [], None)), ('':'', Some (''name'', ''>5'', None))], None)"
  by code_simp

lemma ex_items_ok:
  "list_all (item_ok replace_formatter ex_values)
     [(''user:'', Some (''id'', [], None)), ('':'', Some (''name'', ''>5'', None))]"
  by code_simp

theorem absent_field_gets_marker_witness:
  "formatter_parser ''user:{id}:{name:>5}'' =
     ([(''user:'', Some (''id'', [], None)), ('':'', Some (''name'', ''>5'', None))], None)
   \<and> list_all (item_ok replace_formatter ex_values)
        [(''user:'', Some (''id'', [], None)), ('':'', Some (''name'', ''>5'', None))]
   \<and> get_integer (first_part ''name'') = Inr None
   \<and> ex_values (first_part ''name'') = None
   \<and> vformat replace_formatter ''user:{id}:{name:>5}'' ex_values = Inr ''user:5:*''"
proof -
  have h3: "get_integer (first_part ''name'') = Inr None" by code_simp
  have h4: "ex_values (first_part ''name'') = None" by code_simp
  have t1: "item_text replace_formatter ex_values (''user:'', Some (''id'', [], None)) = ''user:5''"
    by code_simp
  note w = absent_field_gets_marker [OF ex_parse ex_items_ok h3 h4, of "'':''" "''>5''" None]
  show ?thesis
    using ex_parse ex_items_ok h3 h4 t1 w by simp
qed

section \<open>Fields whose specifier names no registered function\<close>

lemma cex_conversion_spec: "vformat replace_formatter ''{a!r:>5}'' ex_none_values = Inr ''None''"
  by code_simp

lemma cex_conversion_bool: "vformat replace_formatter ''{flag!s:>5}'' ex_values = Inr ''True''"
  by code_simp

lemma cex_nested_spec: "vformat replace_formatter ''{a:{0}}'' ex_none_values = Inl IndexError"
  by code_simp

text \<open>
  Claim C10 does not hold for every field. A conversion is applied before \<open>format_field\<close>,
  so what \<open>format_value\<close> receives is no longer the bound value but its \<open>repr\<close> or \<open>str\<close>, a
  string, which it leaves as it is: \<open>{a!r:>5}\<close> with \<open>a\<close> bound to \<open>None\<close> gives \<open>None\<close> and
  not the empty string, \<open>{flag!s:>5}\<close> with \<open>flag\<close> bound to \<open>True\<close> gives \<open>True\<close> and not
  \<open>true\<close>. And the specifier is expanded before it is discarded, so a nested field in it can
  raise: \<open>{a:{0}}\<close> raises \<open>IndexError\<close>. None of these specifiers names a registered alias,
  \<open>_ReplaceFormatter\<close> having none.
\<close>

theorem unregistered_specifier_counterexample:
  "fm_functions replace_formatter = None
   \<and> ex_none_values ''a'' = Some PyNone \<and> default_stringification PyNone = []
   \<and> vformat replace_formatter ''{a!r:>5}'' ex_none_values = Inr ''None''
   \<and> ex_values ''flag'' = Some (PyBool True) \<and> default_stringification (PyBool True) = ''true''
   \<and> vformat replace_formatter ''{flag!s:>5}'' ex_values = Inr ''True''
   \<and> vformat replace_formatter ''{a:{0}}'' ex_none_values = Inl IndexError"
  using cex_conversion_spec cex_conversion_bool cex_nested_spec
  by (simp add: replace_formatter_def ex_none_values_def ex_values_def default_stringification_def)

text \<open>
  Claim C10, amended. For every named field without conversion whose value resolves to
  \<open>v\<close> and whose specifier expands without error to \<open>spec\<close> (it is its own expansion when
  it has no nested field): when \<open>spec\<close> does not name a registered alias (always so for a
  \<open>_ReplaceFormatter\<close>, which has no aliases), the field is rendered as the default
  stringification of \<open>v\<close> alone, \<open>spec\<close> is dropped by \<open>format_field\<close>, and no error is
  raised.
\<close>

theorem unregistered_specifier_discarded:
  assumes "field_name \<noteq> []"
    and "get_field fm kwargs field_name = Inr v"
    and "vformat_depth fm kwargs d (manual \<or> list_all py_isdigit field_name) format_spec
           = Inr (spec, manual')"
    and "case fm_functions fm of None \<Rightarrow> True
         | Some funcs \<Rightarrow> funcs (fst (parse_format_spec spec)) = None"
  shows "format_one fm kwargs (vformat_depth fm kwargs d) manual (field_name, format_spec, None)
           = Inr (default_stringification v, manual')
       \<and> format_field fm v spec = Inr (default_stringification v)"
proof -
  have ff: "format_field fm v spec = Inr (default_stringification v)"
    using assms(4) by (rule format_field_unaliased)
  show ?thesis
    using assms(1,2,3) ff
    by (simp add: format_one_def convert_field_def del: vformat_depth.simps)
qed

lemma ex_flag_field: "get_field ex_func_formatter ex_values ''flag'' = Inr (PyBool True)"
  by code_simp

lemma ex_flag_spec:
  "vformat_depth ex_func_formatter ex_values (Suc (Suc 0)) (False \<or> list_all py_isdigit ''flag'')
     ''>10(x)'' = Inr (''>10(x)'', False)"
  by code_simp

lemma ex_flag_alias:
  "(case fm_functions ex_func_formatter of None \<Rightarrow> True
    | Some funcs \<Rightarrow> funcs (fst (parse_format_spec ''>10(x)'')) = None)"
  by code_simp

lemma ex_flag_vformat: "vformat ex_func_formatter ''{flag:>10(x)}'' ex_values = Inr ''true''"
  by code_simp

theorem unregistered_specifier_discarded_witness:
  "''flag'' \<noteq> []
   \<and> get_field ex_func_formatter ex_values ''flag'' = Inr (PyBool True)
   \<and> vformat_depth ex_func_formatter ex_values (Suc (Suc 0))
        (False \<or> list_all py_isdigit ''flag'') ''>10(x)'' = Inr (''>10(x)'', False)
   \<and> fm_functions ex_func_formatter = Some ex_funcs
   \<and> ex_funcs (fst (parse_format_spec ''>10(x)'')) = None
   \<and> format_one ex_func_formatter ex_values (vformat_depth ex_func_formatter ex_values (Suc (Suc 0)))
        False (''flag'', ''>10(x)'', None) = Inr (''true'', False)
   \<and> format_field ex_func_formatter (PyBool True) ''>10(x)'' = Inr ''true''
   \<and> vformat ex_func_formatter ''{flag:>10(x)}'' ex_values = Inr ''true''"
proof -
  have n: "''flag'' \<noteq> []" by simp
  have f: "fm_functions ex_func_formatter = Some ex_funcs"
    by (simp add: ex_func_formatter_def)
  have a: "ex_funcs (fst (parse_format_spec ''>10(x)'')) = None"
    using ex_flag_alias by (simp add: f)
  have s: "default_stringification (PyBool True) = ''true''"
    by (simp add: default_stringification_def)
  note w = unregistered_specifier_discarded [OF n ex_flag_field ex_flag_spec ex_flag_alias]
  show ?thesis
    using n ex_flag_field ex_flag_spec f a ex_flag_vformat w
    by (simp only: s) simp
qed

section \<open>Looking a key up in the registry\<close>

lemma find_triples_tf:
  "get_template_and_func_for_triples ts key =
     (case find (\<lambda>(fk, template, cp). re_fullmatch cp key \<noteq> None) ts of
        None \<Rightarrow> Inr None
      | Some (fk, template, cp) \<Rightarrow>
          (case template_to_pattern replace_formatter template Map.empty of
             Inl e \<Rightarrow> Inl e
           | Inr p \<Rightarrow> Inr (Some (p, fk))))"
  by (induction ts key rule: get_template_and_func_for_triples.induct)
     (auto split: option.splits sum.splits)

lemma ex_registry_value:
  "ex_registry = Inr [((''app'', ''get_user''),
      [(''user:{id}'', [ReAnyPrefix, ReLit CHR ''u'', ReLit CHR ''s'', ReLit CHR ''e'', ReLit CHR ''r'',
          ReLit CHR '':'', ReGroup ''id'', ReDollar])])]"
  by code_simp

text \<open>
  Claim C3 does not hold as stated: for a key that matches, \<open>get_template_and_func_for\<close>
  does not return the template. It returns \<open>template_to_pattern(template)\<close>, the template
  formatted with no values, in which every field is replaced by \<open>*\<close>.
\<close>

theorem lookup_by_key_counterexample:
  "ex_registry = Inr [((''app'', ''get_user''),
      [(''user:{id}'', [ReAnyPrefix, ReLit CHR ''u'', ReLit CHR ''s'', ReLit CHR ''e'', ReLit CHR ''r'',
          ReLit CHR '':'', ReGroup ''id'', ReDollar])])]
   \<and> get_template_and_func_for [((''app'', ''get_user''),
      [(''user:{id}'', [ReAnyPrefix, ReLit CHR ''u'', ReLit CHR ''s'', ReLit CHR ''e'', ReLit CHR ''r'',
          ReLit CHR '':'', ReGroup ''id'', ReDollar])])] ''user:5''
       = Inr (Some (''user:*'', (''app'', ''get_user'')))"
proof -
  have "get_template_and_func_for [((''app'', ''get_user''),
      [(''user:{id}'', [ReAnyPrefix, ReLit CHR ''u'', ReLit CHR ''s'', ReLit CHR ''e'', ReLit CHR ''r'',
          ReLit CHR '':'', ReGroup ''id'', ReDollar])])] ''user:5''
       = Inr (Some (''user:*'', (''app'', ''get_user'')))"
    by code_simp
  then show ?thesis using ex_registry_value by blast
qed

text \<open>
  Claim C3, amended. For every registry and every key, \<open>get_template_and_func_for\<close> scans the
  registered triples in their order; for the first whose compiled pattern fully matches
  the key it returns the outcome of \<open>template_to_pattern\<close> on that template together
  with the pair that identifies the function; when no pattern matches it returns
  \<open>(None, None)\<close>.
\<close>

theorem lookup_by_key_first_match:
  "get_template_and_func_for reg key =
     (case find (\<lambda>(fk, template, cp). re_fullmatch cp key \<noteq> None) (registry_triples reg) of
        None \<Rightarrow> Inr None
      | Some (fk, template, cp) \<Rightarrow>
          (case template_to_pattern replace_formatter template Map.empty of
             Inl e \<Rightarrow> Inl e
           | Inr p \<Rightarrow> Inr (Some (p, fk))))"
  by (simp add: get_template_and_func_for_def find_triples_tf)

section \<open>Matching the key formatted from a template\<close>

lemma first_some_None: "(\<And>x. x \<in> set xs \<Longrightarrow> f x = None) \<Longrightarrow> first_some f xs = None"
  by (induction xs) auto

lemma first_some_Some_ex: "first_some f xs = Some r \<Longrightarrow> \<exists>x \<in> set xs. f x = Some r"
  by (induction xs) (auto split: option.splits)

lemma first_some_append:
  "first_some f (xs @ ys) = (case first_some f xs of Some r \<Rightarrow> Some r | None \<Rightarrow> first_some f ys)"
  by (induction xs) (auto split: option.splits)

lemma set_down_from: "set (down_from m) = {k. k \<le> m}"
  by (auto simp: down_from_def)

lemma down_from_split:
  assumes "k \<le> m"
  shows "down_from m = rev [Suc k..<Suc m] @ k # rev [0..<k]"
proof -
  obtain d where d: "Suc m = k + d"
    using assms by (metis le_SucI le_iff_add)
  have "[0..<k + d] = [0..<k] @ [k..<k + d]"
    by (rule upt_add_eq_append) simp
  moreover have "[k..<Suc m] = k # [Suc k..<Suc m]"
    using assms by (simp add: upt_conv_Cons)
  ultimately have "[0..<Suc m] = [0..<k] @ k # [Suc k..<Suc m]"
    using d by simp
  then show ?thesis by (simp add: down_from_def)
qed

lemma first_some_down_from:
  assumes "k \<le> m" and "f k = Some r" and "\<And>j. k < j \<Longrightarrow> j \<le> m \<Longrightarrow> f j = None"
  shows "first_some f (down_from m) = Some r"
proof -
  have "first_some f (rev [Suc k..<Suc m]) = None"
    by (rule first_some_None) (use assms(3) in auto)
  then show ?thesis
    using assms(1,2) by (simp add: down_from_split first_some_append)
qed

lemma strip_prefix_Some_iff: "strip_prefix p s = Some r \<longleftrightarrow> s = p @ r"
  by (induction p s rule: strip_prefix.induct) auto

lemma strip_prefix_append: "strip_prefix p (p @ r) = Some r"
  by (simp add: strip_prefix_Some_iff)

lemma take_le_takeWhile:
  "k \<le> length (takeWhile P s) \<Longrightarrow> take k s = take k (takeWhile P s)"
  by (induction s arbitrary: k) (auto simp: take_Cons split: nat.splits if_splits)

lemma takeWhile_drop:
  "k \<le> length (takeWhile P s) \<Longrightarrow> takeWhile P (drop k s) = drop k (takeWhile P s)"
  by (induction s arbitrary: k) (auto simp: drop_Cons split: nat.splits if_splits)

lemma count_list_take_takeWhile:
  assumes "k \<le> length (takeWhile (\<lambda>c. c \<noteq> x) s)"
  shows "count_list (take k s) x = 0"
proof -
  have "take k s = take k (takeWhile (\<lambda>c. c \<noteq> x) s)"
    using assms by (rule take_le_takeWhile)
  then have "set (take k s) \<subseteq> set (takeWhile (\<lambda>c. c \<noteq> x) s)"
    by (metis set_take_subset)
  then have "x \<notin> set (take k s)"
    by (auto dest: set_takeWhileD)
  then show ?thesis by (simp add: count_list_0_iff)
qed

lemma count_list_split: "count_list s x = count_list (take k s) x + count_list (drop k s) x"
proof -
  have "count_list (take k s @ drop k s) x = count_list (take k s) x + count_list (drop k s) x"
    by (rule count_list_append)
  then show ?thesis by simp
qed

lemma count_list_drop_le: "count_list (drop k s) x \<le> count_list s x"
  using count_list_split [of s x k] by simp

lemma count_list_drop_Suc:
  assumes "k < length s" and "s ! k = x"
  shows "count_list (drop (Suc k) s) x < count_list s x"
proof -
  have e: "s = take k s @ x # drop (Suc k) s"
    using assms by (metis id_take_nth_drop)
  have "count_list (take k s @ x # drop (Suc k) s) x
          = count_list (take k s) x + Suc (count_list (drop (Suc k) s) x)"
    by simp
  with e have "count_list s x = count_list (take k s) x + Suc (count_list (drop (Suc k) s) x)"
    by simp
  then show ?thesis by simp
qed

text \<open>
  Every literal colon of a pattern takes a colon of the string it matches, so a string
  that is matched has at least as many colons as the pattern has literal colons.
\<close>

lemma match_colons_lower:
  assumes "re_match B s g = Some r"
  shows "count_list B (ReLit CHR '':'') \<le> count_list s CHR '':''"
  using assms
proof (induction B arbitrary: s g r)
  case Nil
  then show ?case by simp
next
  case (Cons a B)
  show ?case
  proof (cases a)
    case (ReLit c)
    with Cons.prems obtain s' where s: "s = c # s'" and m: "re_match B s' g = Some r"
      by (cases s) (auto split: if_splits)
    from Cons.IH [OF m] show ?thesis
      using s ReLit by auto
  next
    case ReAny
    with Cons.prems obtain x s' where s: "s = x # s'" and m: "re_match B s' g = Some r"
      by (cases s) (auto split: if_splits)
    from Cons.IH [OF m] show ?thesis
      using s ReAny by auto
  next
    case (ReGroup n)
    from Cons.prems ReGroup obtain k where
      m: "re_match B (drop k s) (g @ [(n, take k s)]) = Some r"
      by (auto dest!: first_some_Some_ex)
    from Cons.IH [OF m] have "count_list B (ReLit CHR '':'') \<le> count_list (drop k s) CHR '':''" .
    also have "\<dots> \<le> count_list s CHR '':''" by (rule count_list_drop_le)
    finally show ?thesis using ReGroup by simp
  next
    case ReAnyPrefix
    let ?f = "\<lambda>k. if k < length s \<and> s ! k = CHR '':'' then re_match B (drop (Suc k) s) g else None"
    let ?ks = "down_from (length (takeWhile (\<lambda>c. c \<noteq> CHR 0x0A) s))"
    show ?thesis
    proof (cases "first_some ?f ?ks")
      case None
      with Cons.prems ReAnyPrefix have "re_match B s g = Some r" by simp
      from Cons.IH [OF this] show ?thesis using ReAnyPrefix by simp
    next
      case (Some r')
      then obtain k where "?f k = Some r'" by (auto dest!: first_some_Some_ex)
      then have m: "re_match B (drop (Suc k) s) g = Some r'" by (auto split: if_splits)
      from Cons.IH [OF m]
      have "count_list B (ReLit CHR '':'') \<le> count_list (drop (Suc k) s) CHR '':''" .
      also have "\<dots> \<le> count_list s CHR '':''" by (rule count_list_drop_le)
      finally show ?thesis using ReAnyPrefix by simp
    qed
  next
    case ReDollar
    with Cons.prems have "re_match B s g = Some r" by (auto split: if_splits)
    from Cons.IH [OF this] show ?thesis using ReDollar by simp
  qed
qed

text \<open>
  When the string has no colon to spare, no dot of the pattern can take one: up to its
  first colon the string is as long as the pattern is up to its first literal colon.
\<close>

lemma match_lead_length:
  assumes "separated True B" and "re_match (B @ [ReDollar]) s g = Some r"
    and "count_list s CHR '':'' \<le> count_list B (ReLit CHR '':'')"
  shows "length (takeWhile (\<lambda>c. c \<noteq> CHR '':'') s)
           = length (takeWhile (\<lambda>a. a \<noteq> ReLit CHR '':'') B)"
  using assms
proof (induction B arbitrary: s)
  case Nil
  then show ?case by (auto split: if_splits)
next
  case (Cons a B)
  show ?case
  proof (cases a)
    case (ReLit c)
    with Cons.prems(2) obtain s' where s: "s = c # s'"
      and m: "re_match (B @ [ReDollar]) s' g = Some r"
      by (cases s) (auto split: if_splits)
    show ?thesis
    proof (cases "c = CHR '':''")
      case True
      with s ReLit show ?thesis by simp
    next
      case False
      with Cons.prems(1) ReLit have sep: "separated True B" by simp
      from Cons.prems(3) s ReLit False
      have "count_list s' CHR '':'' \<le> count_list B (ReLit CHR '':'')" by simp
      from Cons.IH [OF sep m this] show ?thesis
        using s ReLit False by simp
    qed
  next
    case ReAny
    with Cons.prems(2) obtain x s' where s: "s = x # s'"
      and m: "re_match (B @ [ReDollar]) s' g = Some r"
      by (cases s) (auto split: if_splits)
    from Cons.prems(1) ReAny have sep: "separated True B" by simp
    have low: "count_list B (ReLit CHR '':'') \<le> count_list s' CHR '':''"
      using match_colons_lower [OF m] by simp
    have x: "x \<noteq> CHR '':''"
    proof
      assume "x = CHR '':''"
      with Cons.prems(3) s ReAny
      have "Suc (count_list s' CHR '':'') \<le> count_list B (ReLit CHR '':'')" by simp
      with low show False by simp
    qed
    with Cons.prems(3) s ReAny
    have "count_list s' CHR '':'' \<le> count_list B (ReLit CHR '':'')" by simp
    from Cons.IH [OF sep m this] show ?thesis
      using s ReAny x by simp
  next
    case (ReGroup n)
    with Cons.prems(1) show ?thesis by simp
  next
    case ReAnyPrefix
    with Cons.prems(1) show ?thesis by simp
  next
    case ReDollar
    with Cons.prems(1) show ?thesis by simp
  qed
qed

lemma segs_count_colons:
  assumes "list_all seg_ok segs"
  shows "count_list (concat (map snd segs)) CHR '':'' = count_list (map fst segs) (ReLit CHR '':'')"
  using assms
proof (induction segs)
  case Nil
  then show ?case by simp
next
  case (Cons seg R)
  obtain a t where seg: "seg = (a, t)" by (cases seg) auto
  from Cons.prems have so: "seg_ok seg" and r: "list_all seg_ok R" by simp_all
  note ih = Cons.IH [OF r]
  show ?case
  proof (cases a)
    case (ReLit c)
    from so seg ReLit have t: "t = [c]" by (simp add: seg_ok_def)
    show ?thesis using ih seg ReLit t by auto
  next
    case ReAny
    from so seg ReAny have t: "t = ''.''" by (simp add: seg_ok_def)
    show ?thesis using ih seg ReAny t by simp
  next
    case (ReGroup n)
    from so seg ReGroup have t: "CHR '':'' \<notin> set t" by (simp add: seg_ok_def)
    then have z: "count_list t CHR '':'' = 0" by (simp add: count_list_0_iff)
    show ?thesis using ih seg ReGroup z by simp
  next
    case ReAnyPrefix
    with so seg show ?thesis by (simp add: seg_ok_def)
  next
    case ReDollar
    with so seg show ?thesis by (simp add: seg_ok_def)
  qed
qed

lemma segs_lead_length:
  assumes "list_all seg_ok segs" and "separated True (map fst segs)"
  shows "length (takeWhile (\<lambda>c. c \<noteq> CHR '':'') (concat (map snd segs)))
           = length (takeWhile (\<lambda>a. a \<noteq> ReLit CHR '':'') (map fst segs))"
  using assms
proof (induction segs)
  case Nil
  then show ?case by simp
next
  case (Cons seg R)
  obtain a t where seg: "seg = (a, t)" by (cases seg) auto
  from Cons.prems(1) have so: "seg_ok seg" and r: "list_all seg_ok R" by simp_all
  show ?case
  proof (cases a)
    case (ReLit c)
    from so seg ReLit have t: "t = [c]" by (simp add: seg_ok_def)
    show ?thesis
    proof (cases "c = CHR '':''")
      case True
      with seg ReLit t show ?thesis by simp
    next
      case False
      with Cons.prems(2) seg ReLit have "separated True (map fst R)" by simp
      from Cons.IH [OF r this] show ?thesis using seg ReLit t False by simp
    qed
  next
    case ReAny
    from so seg ReAny have t: "t = ''.''" by (simp add: seg_ok_def)
    from Cons.prems(2) seg ReAny have "separated True (map fst R)" by simp
    from Cons.IH [OF r this] show ?thesis using seg ReAny t by simp
  next
    case (ReGroup n)
    with Cons.prems(2) seg show ?thesis by simp
  next
    case ReAnyPrefix
    with Cons.prems(2) seg show ?thesis by simp
  next
    case ReDollar
    with Cons.prems(2) seg show ?thesis by simp
  qed
qed

text \<open>A group that takes more than the text of its field leaves too little for the rest.\<close>

lemma group_overrun_fails:
  assumes "list_all seg_ok R" and "separated True (map fst R)" and "0 < j"
    and "j \<le> length (takeWhile (\<lambda>c. c \<noteq> CHR '':'') (concat (map snd R)))"
  shows "re_match (map fst R @ [ReDollar]) (drop j (concat (map snd R))) g = None"
proof (rule ccontr)
  let ?T = "concat (map snd R)"
  let ?B = "map fst R"
  assume "re_match (?B @ [ReDollar]) (drop j ?T) g \<noteq> None"
  then obtain r where m: "re_match (?B @ [ReDollar]) (drop j ?T) g = Some r" by auto
  have "count_list (drop j ?T) CHR '':'' \<le> count_list ?T CHR '':''"
    by (rule count_list_drop_le)
  then have c: "count_list (drop j ?T) CHR '':'' \<le> count_list ?B (ReLit CHR '':'')"
    using segs_count_colons [OF assms(1)] by simp
  have "length (takeWhile (\<lambda>c. c \<noteq> CHR '':'') (drop j ?T))
          = length (takeWhile (\<lambda>a. a \<noteq> ReLit CHR '':'') ?B)"
    using assms(2) m c by (rule match_lead_length)
  then have "length (takeWhile (\<lambda>c. c \<noteq> CHR '':'') (drop j ?T))
          = length (takeWhile (\<lambda>c. c \<noteq> CHR '':'') ?T)"
    using segs_lead_length [OF assms(1,2)] by simp
  moreover have "length (takeWhile (\<lambda>c. c \<noteq> CHR '':'') (drop j ?T))
          = length (takeWhile (\<lambda>c. c \<noteq> CHR '':'') ?T) - j"
    using assms(4) by (simp add: takeWhile_drop)
  ultimately show False using assms(3,4) by simp
qed

lemma seg_groups_Cons_lit: "seg_groups ((ReLit c, t) # segs) = seg_groups segs"
  by (simp add: seg_groups_def)

lemma seg_groups_Cons_any: "seg_groups ((ReAny, t) # segs) = seg_groups segs"
  by (simp add: seg_groups_def)

lemma seg_groups_Cons_group: "seg_groups ((ReGroup n, t) # segs) = (n, t) # seg_groups segs"
  by (simp add: seg_groups_def)

lemma body_matches:
  assumes "list_all seg_ok segs" and "separated p (map fst segs)"
  shows "re_match (map fst segs @ [ReDollar]) (concat (map snd segs)) g = Some (g @ seg_groups segs)"
  using assms
proof (induction segs arbitrary: p g)
  case Nil
  then show ?case by (simp add: seg_groups_def)
next
  case (Cons seg R)
  obtain a t where seg: "seg = (a, t)" by (cases seg) auto
  show ?case
  proof (cases a)
    case (ReLit c)
    from Cons.prems(1) have so: "seg_ok seg" and r: "list_all seg_ok R" by simp_all
    from so seg ReLit have t: "t = [c]" by (simp add: seg_ok_def)
    from Cons.prems(2) seg ReLit have s: "separated (p \<and> c \<noteq> CHR '':'') (map fst R)" by simp
    from Cons.IH [OF r s] show ?thesis
      using seg ReLit t by (simp add: seg_groups_Cons_lit)
  next
    case ReAny
    from Cons.prems(1) have so: "seg_ok seg" and r: "list_all seg_ok R" by simp_all
    from so seg ReAny have t: "t = ''.''" by (simp add: seg_ok_def)
    from Cons.prems(2) seg ReAny have s: "separated p (map fst R)" by simp
    from Cons.IH [OF r s] show ?thesis
      using seg ReAny t by (simp add: seg_groups_Cons_any)
  next
    case (ReGroup n)
    from Cons.prems(1) have so: "seg_ok seg" and r: "list_all seg_ok R" by simp_all
    from so seg ReGroup have t: "CHR '':'' \<notin> set t" by (simp add: seg_ok_def)
    from Cons.prems(2) seg ReGroup have s: "separated True (map fst R)" by simp
    let ?s = "t @ concat (map snd R)"
    let ?m = "length (takeWhile (\<lambda>c. c \<noteq> CHR '':'') ?s)"
    let ?f = "\<lambda>k. re_match (map fst R @ [ReDollar]) (drop k ?s) (g @ [(n, take k ?s)])"
    have tw: "takeWhile (\<lambda>c. c \<noteq> CHR '':'') ?s = t @ takeWhile (\<lambda>c. c \<noteq> CHR '':'') (concat (map snd R))"
      using t by (induction t) auto
    have le: "length t \<le> ?m" by (simp add: tw)
    have hit: "?f (length t) = Some ((g @ [(n, t)]) @ seg_groups R)"
      using Cons.IH [OF r s, of "g @ [(n, t)]"] by simp
    have miss: "?f k = None" if "length t < k" and "k \<le> ?m" for k
    proof -
      let ?j = "k - length t"
      have j: "0 < ?j" "?j \<le> length (takeWhile (\<lambda>c. c \<noteq> CHR '':'') (concat (map snd R)))"
        using that by (auto simp: tw)
      have "drop k ?s = drop ?j (concat (map snd R))"
        using that(1) by simp
      moreover have "re_match (map fst R @ [ReDollar]) (drop ?j (concat (map snd R)))
                       (g @ [(n, take k ?s)]) = None"
        using r s j by (rule group_overrun_fails)
      ultimately show ?thesis by simp
    qed
    have "first_some ?f (down_from ?m) = Some ((g @ [(n, t)]) @ seg_groups R)"
      using le hit miss by (rule first_some_down_from)
    then show ?thesis
      using seg ReGroup by (simp add: seg_groups_Cons_group)
  next
    case ReAnyPrefix
    with Cons.prems(2) seg show ?thesis by simp
  next
    case ReDollar
    with Cons.prems(2) seg show ?thesis by simp
  qed
qed

lemma pattern_matches:
  assumes "list_all seg_ok segs" and "separated False (map fst segs)"
  shows "re_fullmatch (ReAnyPrefix # map fst segs @ [ReDollar]) (concat (map snd segs))
           = Some (seg_groups segs)"
proof -
  let ?key = "concat (map snd segs)"
  let ?B = "map fst segs"
  let ?f = "\<lambda>k. if k < length ?key \<and> ?key ! k = CHR '':''
                 then re_match (?B @ [ReDollar]) (drop (Suc k) ?key) [] else None"
  have none: "?f k = None" for k
  proof (cases "k < length ?key \<and> ?key ! k = CHR '':''")
    case False
    then show ?thesis by auto
  next
    case True
    then have lt: "count_list (drop (Suc k) ?key) CHR '':'' < count_list ?key CHR '':''"
      by (simp add: count_list_drop_Suc)
    have "re_match (?B @ [ReDollar]) (drop (Suc k) ?key) [] = None"
    proof (rule ccontr)
      assume "re_match (?B @ [ReDollar]) (drop (Suc k) ?key) [] \<noteq> None"
      then obtain r where "re_match (?B @ [ReDollar]) (drop (Suc k) ?key) [] = Some r" by auto
      from match_colons_lower [OF this]
      have "count_list ?B (ReLit CHR '':'') \<le> count_list (drop (Suc k) ?key) CHR '':''" by simp
      with segs_count_colons [OF assms(1)] lt show False by simp
    qed
    with True show ?thesis by simp
  qed
  have "first_some ?f (down_from (length (takeWhile (\<lambda>c. c \<noteq> CHR 0x0A) ?key))) = None"
    by (rule first_some_None) (rule none)
  moreover have "re_match (?B @ [ReDollar]) ?key [] = Some ([] @ seg_groups segs)"
    using assms by (rule body_matches)
  ultimately show ?thesis
    by (simp add: re_fullmatch_def)
qed

section \<open>Compiling the pattern of a template\<close>

lemma re_parse_literal:
  assumes "\<not> re_special c" and "c \<noteq> CHR ''.''" and "\<not> (c = CHR ''{'' \<and> brace_repeat s)"
  shows "re_parse seen (c # s) =
           (case re_parse seen s of Inl e \<Rightarrow> Inl e | Inr atoms \<Rightarrow> Inr (ReLit c # atoms))"
proof -
  have "c \<noteq> CHR ''(''" and "c \<noteq> CHR ''$''"
    using assms(1) by (auto simp: re_special_def)
  then show ?thesis
    using assms by (auto simp: re_parse.simps)
qed

lemma re_parse_any:
  "re_parse seen (CHR ''.'' # s) =
     (case re_parse seen s of Inl e \<Rightarrow> Inl e | Inr atoms \<Rightarrow> Inr (ReAny # atoms))"
  by (simp add: re_parse.simps)

lemma ident_char_not_gt: "ident_char c \<Longrightarrow> c \<noteq> CHR ''>''"
  by (auto simp: ident_char_def ident_start_def is_digit_def Let_def)

lemma identifier_no_gt:
  assumes "is_identifier n"
  shows "CHR ''>'' \<notin> set n"
proof -
  from assms obtain c cs where n: "n = c # cs" and c: "ident_start c" and cs: "list_all ident_char cs"
    by (cases n) (auto simp: is_identifier_def)
  have "ident_char c" using c by (simp add: ident_char_def)
  with cs n have "list_all ident_char n" by simp
  then show ?thesis
    by (auto simp: list_all_iff dest: ident_char_not_gt)
qed

lemma takeWhile_until: "x \<notin> set n \<Longrightarrow> takeWhile (\<lambda>c. c \<noteq> x) (n @ x # s) = n"
  by (induction n) auto

lemma dropWhile_until: "x \<notin> set n \<Longrightarrow> dropWhile (\<lambda>c. c \<noteq> x) (n @ x # s) = x # s"
  by (induction n) auto

lemma re_parse_group:
  assumes "is_identifier n" and "n \<notin> set seen"
  shows "re_parse seen (''(?P<'' @ n @ ''>[^:]*)'' @ s) =
           (case re_parse (n # seen) s of Inl e \<Rightarrow> Inl e | Inr atoms \<Rightarrow> Inr (ReGroup n # atoms))"
proof -
  have gt: "CHR ''>'' \<notin> set n" using assms(1) by (rule identifier_no_gt)
  have s1: "strip_prefix ''.*[:])?'' (''?P<'' @ n @ ''>[^:]*)'' @ s) = None" by simp
  have s2: "strip_prefix ''?P<'' (''?P<'' @ n @ ''>[^:]*)'' @ s) = Some (n @ CHR ''>'' # ''[^:]*)'' @ s)"
    by simp
  have t: "takeWhile (\<lambda>x. x \<noteq> CHR ''>'') (n @ CHR ''>'' # ''[^:]*)'' @ s) = n"
    using gt by (rule takeWhile_until)
  have d: "dropWhile (\<lambda>x. x \<noteq> CHR ''>'') (n @ CHR ''>'' # ''[^:]*)'' @ s) = CHR ''>'' # ''[^:]*)'' @ s"
    using gt by (rule dropWhile_until)
  have s3: "strip_prefix ''>[^:]*)'' (CHR ''>'' # ''[^:]*)'' @ s) = Some s" by simp
  have "re_parse seen (CHR ''('' # ''?P<'' @ n @ ''>[^:]*)'' @ s) =
           (case re_parse (n # seen) s of Inl e \<Rightarrow> Inl e | Inr atoms \<Rightarrow> Inr (ReGroup n # atoms))"
    by (subst re_parse.simps) (simp only: s1 s2 t d s3 assms Let_def option.case if_True if_False
          list.simps not_True_eq_False not_False_eq_True refl)
  then show ?thesis by simp
qed

lemma re_parse_dollar: "re_parse seen ''$'' = Inr [ReDollar]"
  by (simp add: re_parse.simps)

lemma re_parse_prefix:
  "re_parse seen (''(.*[:])?'' @ s) =
     (case re_parse seen s of Inl e \<Rightarrow> Inl e | Inr atoms \<Rightarrow> Inr (ReAnyPrefix # atoms))"
proof -
  have "strip_prefix ''.*[:])?'' (''.*[:])?'' @ s) = Some s" by simp
  then have "re_parse seen (CHR ''('' # ''.*[:])?'' @ s) =
     (case re_parse seen s of Inl e \<Rightarrow> Inl e | Inr atoms \<Rightarrow> Inr (ReAnyPrefix # atoms))"
    by (subst re_parse.simps) simp
  then show ?thesis by simp
qed

lemma atom_groups_Nil: "atom_groups [] = []"
  by (simp add: atom_groups_def)

lemma atom_groups_Cons:
  "atom_groups (a # atoms) = (case a of ReGroup name \<Rightarrow> [name] | _ \<Rightarrow> []) @ atom_groups atoms"
  by (simp add: atom_groups_def)

lemma atom_groups_append: "atom_groups (xs @ ys) = atom_groups xs @ atom_groups ys"
  by (simp add: atom_groups_def)

text \<open>The pattern written from atoms of a template is parsed back into these atoms.\<close>

lemma parse_atoms:
  assumes "list_all template_atom atoms" and "braces_literal atoms"
    and "distinct (atom_groups atoms)" and "set (atom_groups atoms) \<inter> set seen = {}"
  shows "re_parse seen (concat (map atom_text atoms) @ ''$'') = Inr (atoms @ [ReDollar])"
  using assms
proof (induction atoms arbitrary: seen)
  case Nil
  then show ?case by (simp add: re_parse_dollar)
next
  case (Cons a atoms)
  define Y where "Y = concat (map atom_text atoms) @ ''$''"
  from Cons.prems(1) have ta: "template_atom a" and tas: "list_all template_atom atoms"
    by simp_all
  from Cons.prems(2) have bl: "a = ReLit CHR ''{'' \<longrightarrow> \<not> brace_repeat Y"
    and bls: "braces_literal atoms"
    by (simp_all add: Y_def)
  have whole: "concat (map atom_text (a # atoms)) @ ''$'' = atom_text a @ Y"
    by (simp add: Y_def)
  show ?case
  proof (cases a)
    case (ReLit c)
    from ta ReLit have c: "\<not> re_special c" "c \<noteq> CHR ''.''" by (simp_all add: template_atom_def)
    from bl ReLit have b: "\<not> (c = CHR ''{'' \<and> brace_repeat Y)" by simp
    from Cons.prems(3,4) ReLit have "distinct (atom_groups atoms)"
      "set (atom_groups atoms) \<inter> set seen = {}"
      by (simp_all add: atom_groups_Cons)
    with tas bls have ih: "re_parse seen Y = Inr (atoms @ [ReDollar])"
      unfolding Y_def by (rule Cons.IH)
    have "re_parse seen (c # Y) =
            (case re_parse seen Y of Inl e \<Rightarrow> Inl e | Inr atoms \<Rightarrow> Inr (ReLit c # atoms))"
      using c b by (rule re_parse_literal)
    then have p: "re_parse seen (c # Y) = Inr (a # atoms @ [ReDollar])"
      by (simp only: ih sum.case ReLit)
    have e: "atom_text a @ Y = c # Y" using ReLit by (simp add: atom_text_def)
    show ?thesis by (simp only: whole e p append_Cons)
  next
    case ReAny
    from Cons.prems(3,4) ReAny have "distinct (atom_groups atoms)"
      "set (atom_groups atoms) \<inter> set seen = {}"
      by (simp_all add: atom_groups_Cons)
    with tas bls have ih: "re_parse seen Y = Inr (atoms @ [ReDollar])"
      unfolding Y_def by (rule Cons.IH)
    have p: "re_parse seen (CHR ''.'' # Y) = Inr (a # atoms @ [ReDollar])"
      by (simp only: re_parse_any ih sum.case ReAny)
    have e: "atom_text a @ Y = CHR ''.'' # Y" using ReAny by (simp add: atom_text_def)
    show ?thesis by (simp only: whole e p append_Cons)
  next
    case (ReGroup n)
    from ta ReGroup have idn: "is_identifier n" by (simp add: template_atom_def)
    from Cons.prems(3) ReGroup have d1: "n \<notin> set (atom_groups atoms)"
      and ds: "distinct (atom_groups atoms)"
      by (simp_all add: atom_groups_Cons)
    from Cons.prems(4) ReGroup have g3: "n \<notin> set seen"
      and dj: "set (atom_groups atoms) \<inter> set seen = {}"
      by (auto simp: atom_groups_Cons)
    have dj': "set (atom_groups atoms) \<inter> set (n # seen) = {}"
      using d1 dj by auto
    have ih: "re_parse (n # seen) Y = Inr (atoms @ [ReDollar])"
      unfolding Y_def using tas bls ds dj' by (rule Cons.IH)
    define X where "X = ''(?P<'' @ n @ ''>[^:]*)'' @ Y"
    have "re_parse seen X =
            (case re_parse (n # seen) Y of Inl e \<Rightarrow> Inl e | Inr atoms \<Rightarrow> Inr (ReGroup n # atoms))"
      unfolding X_def using idn g3 by (rule re_parse_group)
    then have p: "re_parse seen X = Inr (a # atoms @ [ReDollar])"
      by (simp only: ih sum.case ReGroup)
    have e: "atom_text a @ Y = X"
      using ReGroup by (simp add: atom_text_def X_def)
    show ?thesis by (simp only: whole e p append_Cons)
  next
    case ReAnyPrefix
    with ta show ?thesis by (simp add: template_atom_def)
  next
    case ReDollar
    with ta show ?thesis by (simp add: template_atom_def)
  qed
qed

lemma segments_Nil: "segments fm kw [] = []"
  by (simp add: segments_def)

lemma segments_Cons_None:
  "segments fm kw ((lit, None) # items) = map (\<lambda>c. (lit_atom c, [c])) lit @ segments fm kw items"
  by (simp add: segments_def item_segments_def)

lemma segments_Cons_Some:
  "segments fm kw ((lit, Some f) # items) =
     map (\<lambda>c. (lit_atom c, [c])) lit
     @ (ReGroup (group_name (fst f)), field_text fm kw (fst f)) # segments fm kw items"
  by (simp add: segments_def item_segments_def)

lemma map_fst_lits: "map fst (map (\<lambda>c. (lit_atom c, [c])) lit) = map lit_atom lit"
  by (induction lit) auto

lemma concat_snd_lits: "concat (map snd (map (\<lambda>c. (lit_atom c, [c])) lit)) = lit"
  by (induction lit) auto

lemma concat_snd_lits_comp: "concat (map (snd \<circ> (\<lambda>c. (lit_atom c, [c]))) lit) = lit"
  by (induction lit) auto

lemma segments_atoms: "map fst (segments fm kw items) = item_atoms items"
proof (induction items)
  case Nil
  then show ?case by (simp add: item_atoms_def segments_Nil)
next
  case (Cons it items)
  obtain lit fo where it: "it = (lit, fo)" by (cases it) auto
  from Cons have "map fst (segments fm kw items) = map fst (segments re_formatter Map.empty items)"
    by (simp add: item_atoms_def)
  then show ?case
    using it
    by (cases fo) (simp_all add: item_atoms_def segments_Cons_None segments_Cons_Some map_fst_lits)
qed

lemma item_atoms_Nil: "item_atoms [] = []"
  by (simp add: item_atoms_def segments_Nil)

lemma item_atoms_Cons_None: "item_atoms ((lit, None) # items) = map lit_atom lit @ item_atoms items"
  by (simp add: item_atoms_def segments_Cons_None map_fst_lits)

lemma item_atoms_Cons_Some:
  "item_atoms ((lit, Some f) # items) = map lit_atom lit @ ReGroup (group_name (fst f)) # item_atoms items"
  by (simp add: item_atoms_def segments_Cons_Some map_fst_lits)

lemma segments_text: "concat (map snd (segments fm kw items)) = concat (map (item_text fm kw) items)"
proof (induction items)
  case Nil
  then show ?case by (simp add: segments_Nil)
next
  case (Cons it items)
  obtain lit fo where it: "it = (lit, fo)" by (cases it) auto
  show ?case
    using Cons it
    by (cases fo)
       (simp_all add: segments_Cons_None segments_Cons_Some concat_snd_lits_comp item_text_None
          item_text_Some)
qed

lemma item_fields_Nil: "item_fields [] = []"
  by (simp add: item_fields_def)

lemma item_fields_Cons_None: "item_fields ((lit, None) # items) = item_fields items"
  by (simp add: item_fields_def)

lemma item_fields_Cons_Some: "item_fields ((lit, Some f) # items) = fst f # item_fields items"
  by (simp add: item_fields_def)

lemma re_default_text: "re_default n = ''(?P<'' @ group_name n @ ''>[^:]*)''"
  by (simp add: re_default_def group_name_def)

lemma re_field_text:
  assumes "resolves re_formatter Map.empty n"
  shows "field_text re_formatter Map.empty n = re_default n"
proof -
  have "get_field re_formatter Map.empty n = Inr (PyStr (re_default n))"
    using assms
    by (auto simp: resolves_def get_field_def formatter_get_field_def get_value_def is_caught_def
          re_formatter_def split: sum.splits option.splits if_splits)
  then show ?thesis
    by (simp add: field_text_def default_stringification_def py_str_def)
qed

lemma lits_text: "concat (map atom_text (map lit_atom lit)) = lit"
  by (induction lit) (auto simp: atom_text_def lit_atom_def)

lemma lits_text_comp: "concat (map (atom_text \<circ> lit_atom) lit) = lit"
  by (induction lit) (auto simp: atom_text_def lit_atom_def)

lemma lits_groups: "atom_groups (map lit_atom lit) = []"
  by (induction lit) (auto simp: atom_groups_Nil atom_groups_Cons lit_atom_def)

lemma lits_template_atoms:
  assumes "list_all (\<lambda>c. \<not> re_special c) lit"
  shows "list_all template_atom (map lit_atom lit)"
  using assms by (induction lit) (auto simp: template_atom_def lit_atom_def)

lemma item_atoms_text:
  assumes "list_all (item_ok re_formatter Map.empty) items"
  shows "concat (map atom_text (item_atoms items))
           = concat (map (item_text re_formatter Map.empty) items)"
  using assms
proof (induction items)
  case Nil
  then show ?case by (simp add: item_atoms_Nil)
next
  case (Cons it items)
  obtain lit fo where it: "it = (lit, fo)" by (cases it) auto
  from Cons.prems have ok: "item_ok re_formatter Map.empty it"
    and oks: "list_all (item_ok re_formatter Map.empty) items" by simp_all
  note ih = Cons.IH [OF oks]
  show ?case
  proof (cases fo)
    case None
    with ih it show ?thesis
      by (simp add: item_atoms_Cons_None item_text_None lits_text_comp)
  next
    case (Some f)
    from ok it Some have r: "resolves re_formatter Map.empty (fst f)"
      by (simp add: item_ok_def)
    have ft: "field_text re_formatter Map.empty (fst f) = atom_text (ReGroup (group_name (fst f)))"
      using r by (simp add: re_field_text re_default_text atom_text_def)
    have "concat (map atom_text (item_atoms (it # items)))
            = lit @ atom_text (ReGroup (group_name (fst f))) @ concat (map atom_text (item_atoms items))"
      using it Some by (simp add: item_atoms_Cons_Some lits_text_comp)
    moreover have "concat (map (item_text re_formatter Map.empty) (it # items))
            = lit @ field_text re_formatter Map.empty (fst f)
                @ concat (map (item_text re_formatter Map.empty) items)"
      using it Some by (simp add: item_text_Some)
    ultimately show ?thesis by (simp only: ih ft)
  qed
qed

lemma item_atoms_groups: "atom_groups (item_atoms items) = map group_name (item_fields items)"
proof (induction items)
  case Nil
  then show ?case by (simp add: item_atoms_Nil item_fields_Nil atom_groups_Nil)
next
  case (Cons it items)
  obtain lit fo where it: "it = (lit, fo)" by (cases it) auto
  show ?case
    using Cons it
    by (cases fo)
       (simp_all add: item_atoms_Cons_None item_atoms_Cons_Some item_fields_Cons_None
          item_fields_Cons_Some atom_groups_append atom_groups_Cons lits_groups)
qed

lemma item_atoms_template:
  assumes "list_all (\<lambda>(literal_text, fo). list_all (\<lambda>c. \<not> re_special c) literal_text) items"
    and "list_all (\<lambda>n. is_identifier (group_name n)) (item_fields items)"
  shows "list_all template_atom (item_atoms items)"
  using assms
proof (induction items)
  case Nil
  then show ?case by (simp add: item_atoms_Nil)
next
  case (Cons it items)
  obtain lit fo where it: "it = (lit, fo)" by (cases it) auto
  from Cons.prems(1) it have l: "list_all (\<lambda>c. \<not> re_special c) lit"
    and ls: "list_all (\<lambda>(literal_text, fo). list_all (\<lambda>c. \<not> re_special c) literal_text) items"
    by simp_all
  note la = lits_template_atoms [OF l]
  show ?case
  proof (cases fo)
    case None
    from Cons.prems(2) it None
    have "list_all (\<lambda>n. is_identifier (group_name n)) (item_fields items)"
      by (simp add: item_fields_Cons_None)
    from Cons.IH [OF ls this] show ?thesis
      using it None la by (simp add: item_atoms_Cons_None)
  next
    case (Some f)
    from Cons.prems(2) it Some have g: "is_identifier (group_name (fst f))"
      and gs: "list_all (\<lambda>n. is_identifier (group_name n)) (item_fields items)"
      by (simp_all add: item_fields_Cons_Some)
    have "template_atom (ReGroup (group_name (fst f)))"
      using g by (simp add: template_atom_def)
    with Cons.IH [OF ls gs] show ?thesis
      using it Some la by (simp add: item_atoms_Cons_Some)
  qed
qed

lemma compile_items:
  assumes "list_all (item_ok re_formatter Map.empty) items"
    and "list_all (\<lambda>(literal_text, fo). list_all (\<lambda>c. \<not> re_special c) literal_text) items"
    and "braces_literal (item_atoms items)"
    and "list_all (\<lambda>n. is_identifier (group_name n)) (item_fields items)"
    and "distinct (map group_name (item_fields items))"
  shows "re_parse [] (concat (map (item_text re_formatter Map.empty) items) @ ''$'')
           = Inr (item_atoms items @ [ReDollar])"
proof -
  have "list_all template_atom (item_atoms items)"
    using assms(2,4) by (rule item_atoms_template)
  moreover have "distinct (atom_groups (item_atoms items))"
    using assms(5) by (simp add: item_atoms_groups)
  moreover have "set (atom_groups (item_atoms items)) \<inter> set [] = {}" by simp
  ultimately have "re_parse [] (concat (map atom_text (item_atoms items)) @ ''$'')
           = Inr (item_atoms items @ [ReDollar])"
    using assms(3) by (intro parse_atoms)
  then show ?thesis
    by (simp only: item_atoms_text [OF assms(1)])
qed

section \<open>The groups of a match and the registry\<close>

lemma list_all_lits_seg_ok: "list_all seg_ok (map (\<lambda>c. (lit_atom c, [c])) lit)"
  by (induction lit) (auto simp: seg_ok_def lit_atom_def)

lemma seg_groups_append: "seg_groups (xs @ ys) = seg_groups xs @ seg_groups ys"
  by (simp add: seg_groups_def)

lemma seg_groups_lits: "seg_groups (map (\<lambda>c. (lit_atom c, [c])) lit) = []"
  by (induction lit) (auto simp: seg_groups_def lit_atom_def)

lemma seg_ok_segments:
  assumes "colon_free fm kw items"
  shows "list_all seg_ok (segments fm kw items)"
  using assms
proof (induction items)
  case Nil
  then show ?case by (simp add: segments_Nil)
next
  case (Cons it items)
  obtain lit fo where it: "it = (lit, fo)" by (cases it) auto
  show ?case
  proof (cases fo)
    case None
    with Cons it show ?thesis
      by (simp add: colon_free_def item_fields_Cons_None segments_Cons_None list_all_lits_seg_ok)
  next
    case (Some f)
    with Cons.prems it have c: "CHR '':'' \<notin> set (field_text fm kw (fst f))"
      and cs: "colon_free fm kw items"
      by (simp_all add: colon_free_def item_fields_Cons_Some)
    have "seg_ok (ReGroup (group_name (fst f)), field_text fm kw (fst f))"
      using c by (simp add: seg_ok_def)
    with Cons.IH [OF cs] it Some show ?thesis
      by (simp add: segments_Cons_Some list_all_lits_seg_ok)
  qed
qed

lemma seg_groups_segments:
  "seg_groups (segments fm kw items) = map (\<lambda>n. (group_name n, field_text fm kw n)) (item_fields items)"
proof (induction items)
  case Nil
  then show ?case by (simp add: segments_Nil item_fields_Nil seg_groups_def)
next
  case (Cons it items)
  obtain lit fo where it: "it = (lit, fo)" by (cases it) auto
  show ?case
  proof (cases fo)
    case None
    with Cons it show ?thesis
      by (simp add: segments_Cons_None item_fields_Cons_None seg_groups_append seg_groups_lits)
  next
    case (Some f)
    with Cons it show ?thesis
      by (simp add: segments_Cons_Some item_fields_Cons_Some seg_groups_append seg_groups_lits
            seg_groups_Cons_group)
  qed
qed

lemma map_of_group_names:
  assumes "distinct (map gn ns)" and "n \<in> set ns"
  shows "map_of (map (\<lambda>n. (gn n, ft n)) ns) (gn n) = Some (ft n)"
  using assms
proof (induction ns)
  case Nil
  then show ?case by simp
next
  case (Cons a ns)
  then show ?case by (auto simp: image_iff)
qed

lemma recovers_map_of:
  assumes "distinct (map group_name (item_fields items))"
  shows "recovers fm kw items
           (map_of (map (\<lambda>n. (group_name n, field_text fm kw n)) (item_fields items)))"
  using assms by (simp add: recovers_def list_all_iff map_of_group_names)

lemma registry_triples_Nil: "registry_triples [] = []"
  by (simp add: registry_triples_def)

lemma registry_triples_Cons:
  "registry_triples ((fk, templates) # reg) =
     map (\<lambda>(template, cp). (fk, template, cp)) templates @ registry_triples reg"
  by (simp add: registry_triples_def)

lemma triples_add_set:
  "set (registry_triples (registry_add reg fk e)) = insert (fk, fst e, snd e) (set (registry_triples reg))"
proof (induction reg)
  case Nil
  then show ?case by (cases e) (simp add: registry_triples_Nil registry_triples_Cons)
next
  case (Cons entry reg)
  obtain fk' templates where entry: "entry = (fk', templates)" by (cases entry) auto
  show ?case
  proof (cases "fk' = fk")
    case True
    then show ?thesis
      using entry by (cases e) (auto simp: registry_triples_Cons)
  next
    case False
    then show ?thesis
      using entry Cons by (auto simp: registry_triples_Cons)
  qed
qed

lemma lookup_none_iff:
  "get_template_for_key_triples ts key = None
     \<longleftrightarrow> (\<forall>(fk, template, cp) \<in> set ts. re_fullmatch cp key = None)"
  by (induction ts key rule: get_template_for_key_triples.induct) (auto split: option.splits)

lemma lookup_only_match:
  assumes "\<forall>(fk, template, cp) \<in> set ts. re_fullmatch cp key \<noteq> None \<longrightarrow> (template, cp) = e"
    and "(fk0, fst e, snd e) \<in> set ts"
    and "re_fullmatch (snd e) key = Some m"
  shows "get_template_for_key_triples ts key = Some (fst e, map_of m)"
  using assms
proof (induction ts key rule: get_template_for_key_triples.induct)
  case (1 key)
  then show ?case by simp
next
  case (2 fk template compile_pattern ts key)
  show ?case
  proof (cases "re_fullmatch compile_pattern key")
    case None
    with 2 show ?thesis by auto
  next
    case (Some m')
    with "2.prems"(1) have "(template, compile_pattern) = e" by auto
    with Some "2.prems"(3) show ?thesis by auto
  qed
qed

lemma lookup_after_add:
  assumes "get_template_for_key reg key = None" and "re_fullmatch (snd e) key = Some m"
  shows "get_template_for_key (registry_add reg fk e) key = Some (fst e, map_of m)"
proof -
  let ?ts = "registry_triples (registry_add reg fk e)"
  have none: "\<forall>(fk, template, cp) \<in> set (registry_triples reg). re_fullmatch cp key = None"
    using assms(1) by (simp add: get_template_for_key_def lookup_none_iff)
  have "\<forall>(fk, template, cp) \<in> set ?ts. re_fullmatch cp key \<noteq> None \<longrightarrow> (template, cp) = e"
    using none by (auto simp: triples_add_set)
  moreover have "(fk, fst e, snd e) \<in> set ?ts" by (simp add: triples_add_set)
  ultimately have "get_template_for_key_triples ?ts key = Some (fst e, map_of m)"
    using assms(2) by (rule lookup_only_match)
  then show ?thesis by (simp add: get_template_for_key_def)
qed

section \<open>The round trip through the registry\<close>

lemma ex_colon_key: "vformat replace_formatter ''user:{name}'' ex_colon_values = Inr ''user:a:b''"
  by code_simp

lemma ex_colon_registry:
  "register_template [] ex_owner ''user:{name}'' =
     Inr [((''app'', ''get_user''),
           [(''user:{name}'', [ReAnyPrefix, ReLit CHR ''u'', ReLit CHR ''s'', ReLit CHR ''e'',
               ReLit CHR ''r'', ReLit CHR '':'', ReGroup ''name'', ReDollar])])]"
  by code_simp

lemma ex_colon_lookup:
  "get_template_for_key [((''app'', ''get_user''),
           [(''user:{name}'', [ReAnyPrefix, ReLit CHR ''u'', ReLit CHR ''s'', ReLit CHR ''e'',
               ReLit CHR ''r'', ReLit CHR '':'', ReGroup ''name'', ReDollar])])] ''user:a:b'' = None"
  by code_simp

text \<open>
  Claim C1 does not hold for every value map: a group accepts no colon, so the key
  formatted from a value whose string form has one is not matched by the pattern of its
  own template, and the lookup finds nothing.
\<close>

theorem roundtrip_colon_counterexample:
  "ex_colon_values ''name'' = Some (PyStr ''a:b'')
   \<and> vformat replace_formatter ''user:{name}'' ex_colon_values = Inr ''user:a:b''
   \<and> register_template [] ex_owner ''user:{name}'' =
       Inr [((''app'', ''get_user''),
           [(''user:{name}'', [ReAnyPrefix, ReLit CHR ''u'', ReLit CHR ''s'', ReLit CHR ''e'',
               ReLit CHR ''r'', ReLit CHR '':'', ReGroup ''name'', ReDollar])])]
   \<and> get_template_for_key [((''app'', ''get_user''),
           [(''user:{name}'', [ReAnyPrefix, ReLit CHR ''u'', ReLit CHR ''s'', ReLit CHR ''e'',
               ReLit CHR ''r'', ReLit CHR '':'', ReGroup ''name'', ReDollar])])] ''user:a:b'' = None"
proof -
  have "ex_colon_values ''name'' = Some (PyStr ''a:b'')" by (simp add: ex_colon_values_def)
  then show ?thesis
    using ex_colon_key ex_colon_registry ex_colon_lookup by blast
qed

text \<open>
  Claim C1, amended. Take a well-formed template that is ready for the round trip (its
  fields are plain and not positional; its literal text has none of the characters
  \<open>^ $ * + ? [ ( ) |\<close> and backslash and no brace that opens a repetition, while dots,
  closing brackets and braces, and any other character are allowed; the group names of
  its fields, the field names with dots read as underscores, are identifiers and pairwise
  distinct; and consecutive fields are separated by literal text with a colon) and a
  value map for which every field resolves to a value whose string form has no colon. If
  no pattern registered before matches the key formatted from them, then registering the
  template succeeds, and looking that key up returns the template and, under the group
  name of each field, the string form of its value after the normalization of section
  4.2.
\<close>

theorem registered_template_roundtrip:
  assumes "formatter_parser template = (items, None)"
    and "list_all (item_ok fm kwargs) items"
    and "roundtrip_ready items"
    and "colon_free fm kwargs items"
    and "vformat fm template kwargs = Inr key"
    and "get_template_for_key reg key = None"
  shows "register_template reg func template
           = Inr (registry_add reg (func_key func)
                    (template, ReAnyPrefix # item_atoms items @ [ReDollar]))
       \<and> get_template_for_key
             (registry_add reg (func_key func) (template, ReAnyPrefix # item_atoms items @ [ReDollar]))
             key
           = Some (template,
                   map_of (map (\<lambda>n. (group_name n, field_text fm kwargs n)) (item_fields items)))
       \<and> recovers fm kwargs items
             (map_of (map (\<lambda>n. (group_name n, field_text fm kwargs n)) (item_fields items)))"
proof -
  let ?cp = "ReAnyPrefix # item_atoms items @ [ReDollar]"
  let ?segs = "segments fm kwargs items"
  let ?pat = "concat (map (item_text re_formatter Map.empty) items)"
  from assms(3) have r1: "list_all (item_ok re_formatter Map.empty) items"
    and r2: "list_all (\<lambda>(literal_text, fo). list_all (\<lambda>c. \<not> re_special c) literal_text) items"
    and r3: "braces_literal (item_atoms items)"
    and r4: "list_all (\<lambda>n. is_identifier (group_name n)) (item_fields items)"
    and r5: "distinct (map group_name (item_fields items))"
    and r6: "separated False (item_atoms items)"
    by (simp_all add: roundtrip_ready_def)
  have pat: "template_to_pattern re_formatter template Map.empty = Inr ?pat"
    unfolding template_to_pattern_def using assms(1) r1 by (rule vformat_plain)
  have "re_parse [] (?pat @ ''$'') = Inr (item_atoms items @ [ReDollar])"
    using r1 r2 r3 r4 r5 by (rule compile_items)
  then have "re_parse [] (''(.*[:])?'' @ (?pat @ ''$'')) = Inr ?cp"
    by (simp only: re_parse_prefix sum.case)
  then have comp: "re_compile (''(.*[:])?'' @ ?pat @ ''$'') = Inr ?cp"
    by (simp only: re_compile_def)
  have reg: "register_template reg func template = Inr (registry_add reg (func_key func) (template, ?cp))"
    by (simp only: register_template_def pat comp sum.case)
  have "vformat fm template kwargs = Inr (concat (map (item_text fm kwargs) items))"
    using assms(1,2) by (rule vformat_plain)
  with assms(5) have key: "key = concat (map snd ?segs)"
    by (simp add: segments_text)
  have so: "list_all seg_ok ?segs" using assms(4) by (rule seg_ok_segments)
  have sep: "separated False (map fst ?segs)" using r6 by (simp add: segments_atoms)
  have "re_fullmatch (ReAnyPrefix # map fst ?segs @ [ReDollar]) (concat (map snd ?segs))
          = Some (seg_groups ?segs)"
    using so sep by (rule pattern_matches)
  then have m: "re_fullmatch (snd (template, ?cp)) key
          = Some (map (\<lambda>n. (group_name n, field_text fm kwargs n)) (item_fields items))"
    by (simp add: key segments_atoms seg_groups_segments)
  have look: "get_template_for_key (registry_add reg (func_key func) (template, ?cp)) key
          = Some (fst (template, ?cp),
                  map_of (map (\<lambda>n. (group_name n, field_text fm kwargs n)) (item_fields items)))"
    using assms(6) m by (rule lookup_after_add)
  have rec: "recovers fm kwargs items
               (map_of (map (\<lambda>n. (group_name n, field_text fm kwargs n)) (item_fields items)))"
    using r5 by (rule recovers_map_of)
  show ?thesis
    using reg look rec by simp
qed

lemma ex_rt_parse:
  "formatter_parser ''app.views:{user.id}:{flag}'' =
     ([(''app.views:'', Some (''user.id'', [], None)), ('':'', Some (''flag'', [], None))], None)"
  by code_simp

lemma ex_rt_ok:
  "list_all (item_ok replace_formatter ex_user_values)
     [(''app.views:'', Some (''user.id'', [], None)), ('':'', Some (''flag'', [], None))]"
  by code_simp

lemma ex_rt_ready:
  "roundtrip_ready [(''app.views:'', Some (''user.id'', [], None)), ('':'', Some (''flag'', [], None))]"
  by code_simp

lemma ex_rt_colon_free:
  "colon_free replace_formatter ex_user_values
     [(''app.views:'', Some (''user.id'', [], None)), ('':'', Some (''flag'', [], None))]"
  by code_simp

lemma ex_rt_key:
  "vformat replace_formatter ''app.views:{user.id}:{flag}'' ex_user_values = Inr ''app.views:5:true''"
  by code_simp

lemma ex_rt_empty: "get_template_for_key [] ''app.views:5:true'' = None"
  by code_simp

lemma ex_rt_fields:
  "map (\<lambda>n. (group_name n, field_text replace_formatter ex_user_values n))
     (item_fields [(''app.views:'', Some (''user.id'', [], None)), ('':'', Some (''flag'', [], None))])
   = [(''user_id'', ''5''), (''flag'', ''true'')]"
  by code_simp

lemma ex_rt_atoms:
  "ReAnyPrefix
     # item_atoms [(''app.views:'', Some (''user.id'', [], None)), ('':'', Some (''flag'', [], None))]
     @ [ReDollar]
   = [ReAnyPrefix, ReLit CHR ''a'', ReLit CHR ''p'', ReLit CHR ''p'', ReAny, ReLit CHR ''v'',
      ReLit CHR ''i'', ReLit CHR ''e'', ReLit CHR ''w'', ReLit CHR ''s'', ReLit CHR '':'',
      ReGroup ''user_id'', ReLit CHR '':'', ReGroup ''flag'', ReDollar]"
  by code_simp

lemma ex_rt_registry:
  "registry_add [] (func_key ex_owner) (t, cp) = [((''app'', ''get_user''), [(t, cp)])]"
  by (simp add: func_key_def ex_owner_def)

theorem registered_template_roundtrip_witness:
  "formatter_parser ''app.views:{user.id}:{flag}'' =
     ([(''app.views:'', Some (''user.id'', [], None)), ('':'', Some (''flag'', [], None))], None)
   \<and> list_all (item_ok replace_formatter ex_user_values)
        [(''app.views:'', Some (''user.id'', [], None)), ('':'', Some (''flag'', [], None))]
   \<and> roundtrip_ready
        [(''app.views:'', Some (''user.id'', [], None)), ('':'', Some (''flag'', [], None))]
   \<and> colon_free replace_formatter ex_user_values
        [(''app.views:'', Some (''user.id'', [], None)), ('':'', Some (''flag'', [], None))]
   \<and> vformat replace_formatter ''app.views:{user.id}:{flag}'' ex_user_values
        = Inr ''app.views:5:true''
   \<and> get_template_for_key [] ''app.views:5:true'' = None
   \<and> register_template [] ex_owner ''app.views:{user.id}:{flag}''
        = Inr [((''app'', ''get_user''),
                [(''app.views:{user.id}:{flag}'',
                  [ReAnyPrefix, ReLit CHR ''a'', ReLit CHR ''p'', ReLit CHR ''p'', ReAny,
                   ReLit CHR ''v'', ReLit CHR ''i'', ReLit CHR ''e'', ReLit CHR ''w'',
                   ReLit CHR ''s'', ReLit CHR '':'', ReGroup ''user_id'', ReLit CHR '':'',
                   ReGroup ''flag'', ReDollar])])]
   \<and> get_template_for_key
        [((''app'', ''get_user''),
          [(''app.views:{user.id}:{flag}'',
            [ReAnyPrefix, ReLit CHR ''a'', ReLit CHR ''p'', ReLit CHR ''p'', ReAny,
             ReLit CHR ''v'', ReLit CHR ''i'', ReLit CHR ''e'', ReLit CHR ''w'',
             ReLit CHR ''s'', ReLit CHR '':'', ReGroup ''user_id'', ReLit CHR '':'',
             ReGroup ''flag'', ReDollar])])]
        ''app.views:5:true''
        = Some (''app.views:{user.id}:{flag}'', map_of [(''user_id'', ''5''), (''flag'', ''true'')])"
proof -
  note w = registered_template_roundtrip
    [OF ex_rt_parse ex_rt_ok ex_rt_ready ex_rt_colon_free ex_rt_key ex_rt_empty, of ex_owner]
  from w have
    "register_template [] ex_owner ''app.views:{user.id}:{flag}''
        = Inr [((''app'', ''get_user''),
                [(''app.views:{user.id}:{flag}'',
                  [ReAnyPrefix, ReLit CHR ''a'', ReLit CHR ''p'', ReLit CHR ''p'', ReAny,
                   ReLit CHR ''v'', ReLit CHR ''i'', ReLit CHR ''e'', ReLit CHR ''w'',
                   ReLit CHR ''s'', ReLit CHR '':'', ReGroup ''user_id'', ReLit CHR '':'',
                   ReGroup ''flag'', ReDollar])])]
     \<and> get_template_for_key
        [((''app'', ''get_user''),
          [(''app.views:{user.id}:{flag}'',
            [ReAnyPrefix, ReLit CHR ''a'', ReLit CHR ''p'', ReLit CHR ''p'', ReAny,
             ReLit CHR ''v'', ReLit CHR ''i'', ReLit CHR ''e'', ReLit CHR ''w'',
             ReLit CHR ''s'', ReLit CHR '':'', ReGroup ''user_id'', ReLit CHR '':'',
             ReGroup ''flag'', ReDollar])])]
        ''app.views:5:true''
        = Some (''app.views:{user.id}:{flag}'', map_of [(''user_id'', ''5''), (''flag'', ''true'')])"
    by (simp only: ex_rt_fields ex_rt_atoms ex_rt_registry)
  then show ?thesis
    using ex_rt_parse ex_rt_ok ex_rt_ready ex_rt_colon_free ex_rt_key ex_rt_empty by blast
qed

end
